(* ===== verification/Prelude.thy ===== *)
theory Prelude
  imports Main "HOL-Library.Word"
begin

text \<open>
  The vocabulary every component shares: machine integers at the widths the C code declares,
  the outcome of a C call (a value, undefined behaviour or process termination, or a thread
  that waits), byte memory with host byte order, and \<open>strncpy\<close>. Nothing here is specific to
  one component.
\<close>

section \<open>Machine integers\<close>

type_synonym u8 = "8 word"
type_synonym u16 = "16 word"
type_synonym u32 = "32 word"
type_synonym u64 = "64 word"

text \<open>\<open>const_defs\<close> collects the preprocessor constants, \<open>layout\<close> the sizes and offsets of
  the packed structures, \<open>msg_defs\<close> the getters and setters of the protocol, \<open>mem_simps\<close>
  the laws of byte memory that evaluate them, \<open>outcome_simps\<close> the sequencing laws.\<close>

named_theorems const_defs
named_theorems layout
named_theorems msg_defs
named_theorems mem_simps
named_theorems outcome_simps

section \<open>Outcomes of a C call\<close>

text \<open>
  A call returns (\<open>Ok\<close>), runs into undefined behaviour or ends the process (\<open>Fail\<close>, with the
  reason), or waits for an event that has not happened yet (\<open>Wait\<close>: a condition variable, or a
  socket operation with nothing to deliver).
\<close>

datatype fault =
    NullDeref      \<comment> \<open>a null pointer is dereferenced\<close>
  | UninitRead     \<comment> \<open>an uninitialised pointer is used\<close>
  | UseAfterFree   \<comment> \<open>a freed block is read or written\<close>
  | BadFree        \<comment> \<open>\<open>free\<close> of a block that is not allocated\<close>
  | OutOfBounds    \<comment> \<open>an access outside an array or a buffer\<close>
  | AssertFail     \<comment> \<open>\<open>assert(0)\<close>\<close>
  | ProcExit int   \<comment> \<open>\<open>exit(n)\<close>\<close>
  | BadConversion  \<comment> \<open>a conversion whose result the standard leaves undefined\<close>

datatype 'a outcome = Ok 'a | Fail fault | Wait

primrec bnd :: "'a outcome \<Rightarrow> ('a \<Rightarrow> 'b outcome) \<Rightarrow> 'b outcome" where
  "bnd (Ok x) f = f x"
| "bnd (Fail e) f = Fail e"
| "bnd Wait f = Wait"

lemma bnd_Ok_right [outcome_simps, simp]: "bnd m Ok = m"
  by (cases m) simp_all

lemma bnd_assoc [outcome_simps]: "bnd (bnd m f) g = bnd m (\<lambda>x. bnd (f x) g)"
  by (cases m) simp_all

lemma bnd_eq_Ok_iff: "bnd m f = Ok y \<longleftrightarrow> (\<exists>x. m = Ok x \<and> f x = Ok y)"
  by (cases m) simp_all

lemma bnd_eq_Fail_iff: "bnd m f = Fail e \<longleftrightarrow> m = Fail e \<or> (\<exists>x. m = Ok x \<and> f x = Fail e)"
  by (cases m) simp_all

lemma bnd_OkE:
  assumes "bnd m f = Ok y"
  obtains x where "m = Ok x" and "f x = Ok y"
  using assms by (auto simp: bnd_eq_Ok_iff)

lemma bnd_cong [fundef_cong]:
  "m = m' \<Longrightarrow> (\<And>x. m' = Ok x \<Longrightarrow> f x = g x) \<Longrightarrow> bnd m f = bnd m' g"
  by (cases m') simp_all

lemma bnd_if [outcome_simps]:
  "bnd (if b then m else n) f = (if b then bnd m f else bnd n f)"
  by simp

text \<open>The fault of an outcome, to evaluate runs whose result cannot be compared.\<close>

primrec fault_of :: "'a outcome \<Rightarrow> fault option" where
  "fault_of (Ok x) = None"
| "fault_of (Fail f) = Some f"
| "fault_of Wait = None"

lemma fault_of_Some: "fault_of m = Some f \<Longrightarrow> m = Fail f"
  by (cases m) simp_all

section \<open>Byte memory\<close>

text \<open>
  The bytes of one object, by offset from its first byte. \<open>rd\<close> reads a run of bytes and
  \<open>wr\<close> overwrites one.
\<close>

type_synonym mem = "nat \<Rightarrow> u8"

definition rd :: "mem \<Rightarrow> nat \<Rightarrow> nat \<Rightarrow> u8 list" where
  "rd m i n = map m [i..<i + n]"

definition wr :: "nat \<Rightarrow> u8 list \<Rightarrow> mem \<Rightarrow> mem" where
  "wr i bs m = (\<lambda>j. if i \<le> j \<and> j < i + length bs then bs ! (j - i) else m j)"

lemma length_rd [simp]: "length (rd m i n) = n"
  by (simp add: rd_def)

lemma rd_0 [simp]: "rd m i 0 = []"
  by (simp add: rd_def)

lemma nth_rd [simp]: "k < n \<Longrightarrow> rd m i n ! k = m (i + k)"
  by (simp add: rd_def)

lemma rd_add: "rd m i (a + b) = rd m i a @ rd m (i + a) b"
  by (intro nth_equalityI) (auto simp: nth_append add.assoc)

lemma take_rd: "take k (rd m i n) = rd m i (min k n)"
  by (intro nth_equalityI) auto

lemma drop_rd: "drop k (rd m i n) = rd m (i + k) (n - k)"
  by (intro nth_equalityI) (auto simp: add.assoc)

lemma rd_eq_iff: "rd m i n = rd m' i n \<longleftrightarrow> (\<forall>k < n. m (i + k) = m' (i + k))"
  by (auto simp: list_eq_iff_nth_eq)

lemma wr_Nil [simp]: "wr i [] m = m"
  by (rule ext) (auto simp: wr_def)

lemma wr_inside: "i \<le> j \<Longrightarrow> j < i + length bs \<Longrightarrow> wr i bs m j = bs ! (j - i)"
  by (simp add: wr_def)

lemma wr_outside [mem_simps]: "j < i \<or> i + length bs \<le> j \<Longrightarrow> wr i bs m j = m j"
  by (auto simp: wr_def)

lemma rd_wr_same [mem_simps]: "length bs = n \<Longrightarrow> rd (wr i bs m) i n = bs"
  by (intro nth_equalityI) (auto simp: wr_def)

lemma rd_wr_other [mem_simps]:
  "j + n \<le> i \<or> i + length bs \<le> j \<Longrightarrow> rd (wr i bs m) j n = rd m j n"
  by (auto simp: rd_eq_iff wr_def)

lemma wr_append: "wr (i + length as) bs (wr i as m) = wr i (as @ bs) m"
  by (auto simp: wr_def nth_append fun_eq_iff)

lemma rd_upd_other [mem_simps]: "k < i \<or> i + n \<le> k \<Longrightarrow> rd (m(k := b)) i n = rd m i n"
  by (auto simp: rd_eq_iff)

lemma rd_Suc: "rd m i (Suc n) = m i # rd m (Suc i) n"
  by (simp add: rd_def upt_conv_Cons del: upt_Suc)

section \<open>Host byte order\<close>

text \<open>
  A multi-byte field is stored in the byte order of the host that runs the code; \<open>htons\<close> and
  \<open>ntohs\<close> exchange the two bytes on a little-endian host and do nothing on a big-endian one.
\<close>

datatype endian = LE | BE

definition hi8 :: "u16 \<Rightarrow> u8" where
  "hi8 w = ucast (drop_bit 8 w)"

definition lo8 :: "u16 \<Rightarrow> u8" where
  "lo8 w = ucast w"

definition mk16 :: "u8 \<Rightarrow> u8 \<Rightarrow> u16" where
  "mk16 h l = or (push_bit 8 (ucast h)) (ucast l)"

definition hi16 :: "u32 \<Rightarrow> u16" where
  "hi16 w = ucast (drop_bit 16 w)"

definition lo16 :: "u32 \<Rightarrow> u16" where
  "lo16 w = ucast w"

definition mk32 :: "u16 \<Rightarrow> u16 \<Rightarrow> u32" where
  "mk32 h l = or (push_bit 16 (ucast h)) (ucast l)"

definition htons :: "endian \<Rightarrow> u16 \<Rightarrow> u16" where
  "htons e w = (case e of LE \<Rightarrow> mk16 (lo8 w) (hi8 w) | BE \<Rightarrow> w)"

definition ntohs :: "endian \<Rightarrow> u16 \<Rightarrow> u16" where
  "ntohs e w = htons e w"

definition ld16 :: "endian \<Rightarrow> mem \<Rightarrow> nat \<Rightarrow> u16" where
  "ld16 e m i = (case e of LE \<Rightarrow> mk16 (m (i + 1)) (m i) | BE \<Rightarrow> mk16 (m i) (m (i + 1)))"

definition st16 :: "endian \<Rightarrow> nat \<Rightarrow> u16 \<Rightarrow> mem \<Rightarrow> mem" where
  "st16 e i w m =
     (case e of LE \<Rightarrow> m(i := lo8 w, i + 1 := hi8 w) | BE \<Rightarrow> m(i := hi8 w, i + 1 := lo8 w))"

definition ld32 :: "endian \<Rightarrow> mem \<Rightarrow> nat \<Rightarrow> u32" where
  "ld32 e m i =
     (case e of
        LE \<Rightarrow> mk32 (ld16 LE m (i + 2)) (ld16 LE m i)
      | BE \<Rightarrow> mk32 (ld16 BE m i) (ld16 BE m (i + 2)))"

definition st32 :: "endian \<Rightarrow> nat \<Rightarrow> u32 \<Rightarrow> mem \<Rightarrow> mem" where
  "st32 e i w m =
     (case e of
        LE \<Rightarrow> st16 LE (i + 2) (hi16 w) (st16 LE i (lo16 w) m)
      | BE \<Rightarrow> st16 BE (i + 2) (lo16 w) (st16 BE i (hi16 w) m))"

definition bswap32 :: "u32 \<Rightarrow> u32" where
  "bswap32 w =
     mk32 (mk16 (lo8 (lo16 w)) (hi8 (lo16 w))) (mk16 (lo8 (hi16 w)) (hi8 (hi16 w)))"

definition htonl :: "endian \<Rightarrow> u32 \<Rightarrow> u32" where
  "htonl e w = (case e of LE \<Rightarrow> bswap32 w | BE \<Rightarrow> w)"

definition ntohl :: "endian \<Rightarrow> u32 \<Rightarrow> u32" where
  "ntohl e w = htonl e w"

lemma mk16_hi_lo [simp]: "mk16 (hi8 w) (lo8 w) = w"
  unfolding mk16_def hi8_def lo8_def by (rule bit_word_eqI) (auto simp: bit_simps)

lemma hi8_mk16 [simp]: "hi8 (mk16 h l) = h"
  unfolding mk16_def hi8_def by (rule bit_word_eqI) (auto simp: bit_simps dest: bit_imp_le_length)

lemma lo8_mk16 [simp]: "lo8 (mk16 h l) = l"
  unfolding mk16_def lo8_def by (rule bit_word_eqI) (auto simp: bit_simps)

lemma mk32_hi_lo [simp]: "mk32 (hi16 w) (lo16 w) = w"
  unfolding mk32_def hi16_def lo16_def by (rule bit_word_eqI) (auto simp: bit_simps)

lemma hi16_mk32 [simp]: "hi16 (mk32 h l) = h"
  unfolding mk32_def hi16_def
  by (rule bit_word_eqI) (auto simp: bit_simps dest: bit_imp_le_length)

lemma lo16_mk32 [simp]: "lo16 (mk32 h l) = l"
  unfolding mk32_def lo16_def by (rule bit_word_eqI) (auto simp: bit_simps)

text \<open>The wire format does not depend on the host: the high byte travels first.\<close>

lemma st16_htons [mem_simps]: "st16 e i (htons e w) m = m(i := hi8 w, i + 1 := lo8 w)"
  by (cases e) (simp_all add: st16_def htons_def)

lemma ntohs_ld16 [mem_simps]: "ntohs e (ld16 e m i) = mk16 (m i) (m (i + 1))"
  by (cases e) (simp_all add: ntohs_def htons_def ld16_def)

lemma ntohs_htons [simp]: "ntohs e (htons e w) = w"
  by (cases e) (simp_all add: ntohs_def htons_def)

lemma ld16_st16_same [simp]: "ld16 e (st16 e i w m) i = w"
  by (cases e) (simp_all add: ld16_def st16_def)

lemma ld16_other: "(\<And>k. k = i \<or> k = i + 1 \<Longrightarrow> m k = m' k) \<Longrightarrow> ld16 e m i = ld16 e m' i"
  by (cases e) (simp_all add: ld16_def)

lemma st16_at: "st16 e i w m j =
    (if j = i then (case e of LE \<Rightarrow> lo8 w | BE \<Rightarrow> hi8 w)
     else if j = i + 1 then (case e of LE \<Rightarrow> hi8 w | BE \<Rightarrow> lo8 w) else m j)"
  by (cases e) (simp_all add: st16_def)

lemma ld16_st16_other [mem_simps]: "i + 1 < j \<or> j + 1 < i \<Longrightarrow> ld16 e (st16 e i w m) j = ld16 e m j"
  by (rule ld16_other) (auto simp: st16_at)

lemma ld32_st32_same [simp]: "ld32 e (st32 e i w m) i = w"
  by (cases e) (simp_all add: ld32_def st32_def ld16_st16_other)

lemma st32_outside [mem_simps]: "j < i \<or> i + 4 \<le> j \<Longrightarrow> st32 e i w m j = m j"
  by (cases e) (auto simp: st32_def st16_at)

lemma ntohl_htonl [simp]: "ntohl e (htonl e w) = w"
  by (cases e) (simp_all add: ntohl_def htonl_def bswap32_def)

lemma htonl_ntohl [simp]: "htonl e (ntohl e w) = w"
  by (cases e) (simp_all add: ntohl_def htonl_def bswap32_def)

lemma htons_ntohs [simp]: "htons e (ntohs e w) = w"
  by (cases e) (simp_all add: ntohs_def htons_def)

lemma st32_htonl [mem_simps]:
  "st32 e i (htonl e w) m =
     m(i := hi8 (hi16 w), i + 1 := lo8 (hi16 w), i + 2 := hi8 (lo16 w), i + 3 := lo8 (lo16 w))"
  by (cases e) (simp_all add: st32_def htonl_def bswap32_def st16_def numeral_3_eq_3)

lemma ntohl_ld32 [mem_simps]:
  "ntohl e (ld32 e m i) = mk32 (mk16 (m i) (m (i + 1))) (mk16 (m (i + 2)) (m (i + 3)))"
  by (cases e) (simp_all add: ntohl_def htonl_def bswap32_def ld32_def ld16_def numeral_3_eq_3)

lemma st32_inside_irrelevant: "i \<le> j \<Longrightarrow> j < i + 4 \<Longrightarrow> st32 e i w m j = st32 e i w m' j"
  by (cases e) (auto simp: st32_def st16_at)

section \<open>\<open>strncpy\<close>\<close>

text \<open>
  \<open>strncpy_bytes n src\<close> is what \<open>strncpy(dst, src, n)\<close> leaves in the \<open>n\<close> bytes of \<open>dst\<close>: the
  source up to its terminator, at most \<open>n\<close> bytes, then zeros up to \<open>n\<close>. The source is given
  without the bytes after its terminator, or as an array of at least \<open>n\<close> bytes.
\<close>

definition strncpy_bytes :: "nat \<Rightarrow> u8 list \<Rightarrow> u8 list" where
  "strncpy_bytes n src =
     (let s = takeWhile (\<lambda>b. b \<noteq> 0) (take n src) in s @ replicate (n - length s) 0)"

lemma length_strncpy_bytes [simp]: "length (strncpy_bytes n src) = n"
proof -
  have "length (takeWhile (\<lambda>b. b \<noteq> 0) (take n src)) \<le> n"
    by (rule order_trans [OF length_takeWhile_le]) simp
  then show ?thesis by (simp add: strncpy_bytes_def Let_def)
qed

definition cstr :: "u8 list \<Rightarrow> u8 list" where
  "cstr bs = takeWhile (\<lambda>b. b \<noteq> 0) bs"

lemma cstr_append_zeros: "0 \<notin> set s \<Longrightarrow> cstr (s @ replicate k 0) = s"
  by (cases k) (auto simp: cstr_def takeWhile_append)

lemma cstr_strncpy: "cstr (strncpy_bytes n src) = takeWhile (\<lambda>b. b \<noteq> 0) (take n src)"
  unfolding strncpy_bytes_def Let_def
  by (rule cstr_append_zeros) (auto dest: set_takeWhileD)

lemma cstr_cstr [simp]: "cstr (cstr bs) = cstr bs"
  by (auto simp: cstr_def dest: set_takeWhileD)

lemma takeWhile_take_short:
  "0 \<notin> set s \<Longrightarrow> takeWhile (\<lambda>b. b \<noteq> 0) (take n s) = (take n s :: u8 list)"
  by (auto simp: takeWhile_eq_all_conv dest: in_set_takeD)

text \<open>A copy is terminated exactly when the string is shorter than the destination.\<close>

lemma strncpy_terminated_iff:
  assumes "0 \<notin> set s"
  shows "0 \<in> set (strncpy_bytes n s) \<longleftrightarrow> length s < n"
  using assms by (auto simp: strncpy_bytes_def Let_def takeWhile_take_short dest: in_set_takeD)

lemma strncpy_idem [simp]: "strncpy_bytes n (strncpy_bytes n bs) = strncpy_bytes n bs"
proof -
  have "takeWhile (\<lambda>b. b \<noteq> 0) (take n (strncpy_bytes n bs)) = takeWhile (\<lambda>b. b \<noteq> 0) (take n bs)"
    using cstr_strncpy [of n bs] by (simp add: cstr_def)
  then show ?thesis by (metis strncpy_bytes_def)
qed

section \<open>\<open>atoi\<close>\<close>

text \<open>
  Text typed at a console is a \<open>string\<close>. \<open>atoi\<close> skips white space, takes a sign and the digits that
  follow; the result is undefined when an \<open>int\<close> of 32 bits cannot hold it.
\<close>

definition isspace :: "char \<Rightarrow> bool" where
  "isspace c \<longleftrightarrow> of_char c = (32 :: nat) \<or> (9 \<le> (of_char c :: nat) \<and> of_char c \<le> (13 :: nat))"

definition isdigit :: "char \<Rightarrow> bool" where
  "isdigit c \<longleftrightarrow> 48 \<le> (of_char c :: nat) \<and> of_char c \<le> (57 :: nat)"

definition digits_val :: "string \<Rightarrow> int" where
  "digits_val ds = foldl (\<lambda>n c. 10 * n + (int (of_char c) - 48)) 0 ds"

definition atoi :: "string \<Rightarrow> int outcome" where
  "atoi s =
     (let s = dropWhile isspace s;
          neg = (s \<noteq> [] \<and> hd s = CHR ''-'');
          s = (if s \<noteq> [] \<and> (hd s = CHR ''-'' \<or> hd s = CHR ''+'') then tl s else s);
          n = digits_val (takeWhile isdigit s);
          n = (if neg then - n else n)
      in if - (2 ^ 31) \<le> n \<and> n < 2 ^ 31 then Ok n else Fail BadConversion)"

text \<open>The decimal digits of a number.\<close>

fun dec :: "nat \<Rightarrow> string" where
  "dec n = (if n < 10 then [char_of (48 + n)] else dec (n div 10) @ [char_of (48 + n mod 10)])"

declare dec.simps [simp del]

lemma isdigit_dec: "c \<in> set (dec n) \<Longrightarrow> isdigit c"
  by (induction n rule: dec.induct) (subst (asm) (2) dec.simps, auto simp: isdigit_def split: if_splits)

lemma digits_val_dec: "digits_val (dec n) = int n"
proof (induction n rule: dec.induct)
  case (1 n)
  show ?case
  proof (cases "n < 10")
    case True
    then show ?thesis by (subst dec.simps) (simp add: digits_val_def)
  next
    case False
    then have "foldl (\<lambda>n c. 10 * n + (int (of_char c) - 48)) 0 (dec (n div 10)) = int (n div 10)"
      using 1 by (simp add: digits_val_def)
    then show ?thesis using False by (subst dec.simps) (simp add: digits_val_def, arith)
  qed
qed

lemma dec_not_Nil [simp]: "dec n \<noteq> []"
  by (subst dec.simps) simp

lemma atoi_dec: "n < 2 ^ 31 \<Longrightarrow> atoi (dec n) = Ok (int n)"
proof -
  assume n: "n < 2 ^ 31"
  obtain c cs where c: "dec n = c # cs" by (cases "dec n") auto
  have d: "isdigit c" using isdigit_dec [of c n] c by simp
  then have "\<not> isspace c" "c \<noteq> CHR ''-''" "c \<noteq> CHR ''+''"
    by (auto simp: isdigit_def isspace_def)
  moreover have "takeWhile isdigit (dec n) = dec n"
    using isdigit_dec by (auto simp: takeWhile_eq_all_conv)
  ultimately show ?thesis
    using n digits_val_dec [of n] by (simp add: atoi_def c Let_def)
qed

section \<open>Terminals\<close>

text \<open>
  \<open>scanf("%s")\<close> into a buffer of 256 bytes: the word, read back as a C string, and the input from the
  white space behind it on. A word that is not finished yet makes the call wait. \<open>scan_word\<close> adds
  the \<open>getchar\<close> that takes one character more.
\<close>

definition scanf_s :: "string \<Rightarrow> (string \<times> string) outcome" where
  "scanf_s inp =
     (let inp = dropWhile isspace inp;
          w = takeWhile (\<lambda>c. \<not> isspace c) inp;
          rest = dropWhile (\<lambda>c. \<not> isspace c) inp
      in if rest = [] then Wait
         else if 256 \<le> length w then Fail OutOfBounds
         else Ok (takeWhile (\<lambda>c. c \<noteq> CHR 0x00) w, rest))"

definition scan_word :: "string \<Rightarrow> (string \<times> string) outcome" where
  "scan_word inp = bnd (scanf_s inp) (\<lambda>(w, rest). Ok (w, tl rest))"

text \<open>\<open>getline\<close>: the line with its newline, as bytes.\<close>

definition NL :: char where "NL = CHR 0x0A"

definition prompt :: string where "prompt = ''Insert command: '' @ [NL]"

definition get_line :: "string \<Rightarrow> (u8 list \<times> string) outcome" where
  "get_line inp =
     (if NL \<in> set inp
      then Ok (map of_char (takeWhile (\<lambda>c. c \<noteq> NL) inp @ [NL]), tl (dropWhile (\<lambda>c. c \<noteq> NL) inp))
      else Wait)"

text \<open>The conversions \<open>%d\<close> and \<open>%s\<close>; printing a byte array without a terminator leaves it.\<close>

definition dec_int :: "int \<Rightarrow> string" where
  "dec_int n = (if n < 0 then CHR ''-'' # dec (nat (- n)) else dec (nat n))"

definition chars :: "u8 list \<Rightarrow> string" where
  "chars bs = map (\<lambda>b. char_of (unat b)) bs"

definition printf_s :: "u8 list \<Rightarrow> string outcome" where
  "printf_s bs = (if 0 \<in> set bs then Ok (chars (cstr bs)) else Fail OutOfBounds)"

lemma scanf_s_rest:
  assumes "scanf_s inp = Ok (w, rest)"
  shows "rest \<noteq> []" "length rest \<le> length inp" "w \<noteq> [] \<Longrightarrow> length rest < length inp"
proof -
  let ?i = "dropWhile isspace inp" and ?p = "\<lambda>c. \<not> isspace c"
  have r: "rest \<noteq> []" "rest = dropWhile ?p ?i" "w = takeWhile (\<lambda>c. c \<noteq> CHR 0x00) (takeWhile ?p ?i)"
    using assms by (auto simp: scanf_s_def Let_def split: if_splits)
  have "length (takeWhile ?p ?i) + length rest = length ?i"
    unfolding r(2) by (metis length_append takeWhile_dropWhile_id)
  moreover have "length ?i \<le> length inp" by (rule length_dropWhile_le)
  moreover have "w \<noteq> [] \<Longrightarrow> 0 < length (takeWhile ?p ?i)" using r(3) by auto
  ultimately show "rest \<noteq> []" "length rest \<le> length inp" "w \<noteq> [] \<Longrightarrow> length rest < length inp"
    using r(1) by (blast, linarith+)
qed

lemma scan_word_shrinks:
  assumes "scan_word inp = Ok (w, rest)"
  shows "length rest < length inp"
proof -
  obtain v where v: "scanf_s inp = Ok (w, v)" "rest = tl v"
    using assms by (auto simp: scan_word_def bnd_eq_Ok_iff)
  then show ?thesis using scanf_s_rest(1,2) [OF v(1)] by (cases v) auto
qed

lemma get_line_shrinks: "get_line inp = Ok (l, rest) \<Longrightarrow> length rest < length inp"
proof -
  assume "get_line inp = Ok (l, rest)"
  then have r: "NL \<in> set inp" "rest = tl (dropWhile (\<lambda>c. c \<noteq> NL) inp)"
    by (auto simp: get_line_def split: if_splits)
  then have "dropWhile (\<lambda>c. c \<noteq> NL) inp \<noteq> []" by (auto simp: dropWhile_eq_Nil_conv)
  then have "Suc (length rest) = length (dropWhile (\<lambda>c. c \<noteq> NL) inp)"
    unfolding r(2) by (cases "dropWhile (\<lambda>c. c \<noteq> NL) inp") simp_all
  then show ?thesis using length_dropWhile_le [of "\<lambda>c. c \<noteq> NL" inp] by linarith
qed

end
