(* ===== verification/Memory.thy ===== *)
theory Memory
  imports Prelude
begin

text \<open>
  The C heap the servers allocate job records on. A pointer is null, uninitialised or the address
  of a block; a heap maps the live addresses to their contents and never reuses an address, so a
  pointer to a freed block is recognised as such. The locale \<open>block_store\<close> is the interface the
  components rely on.
\<close>

section \<open>Pointers and heaps\<close>

datatype ptr = NULL | Junk | At nat

record 'a heap =
  cells :: "nat \<rightharpoonup> 'a"
  brk :: nat

definition empty_heap :: "'a heap" where
  "empty_heap = \<lparr>cells = Map.empty, brk = 0\<rparr>"

definition malloc :: "'a \<Rightarrow> 'a heap \<Rightarrow> ptr \<times> 'a heap" where
  "malloc v h = (At (brk h), \<lparr>cells = (cells h)(brk h \<mapsto> v), brk = Suc (brk h)\<rparr>)"

definition mload :: "ptr \<Rightarrow> 'a heap \<Rightarrow> 'a outcome" where
  "mload p h =
     (case p of
        NULL \<Rightarrow> Fail NullDeref
      | Junk \<Rightarrow> Fail UninitRead
      | At a \<Rightarrow> (case cells h a of None \<Rightarrow> Fail UseAfterFree | Some v \<Rightarrow> Ok v))"

definition mstore :: "ptr \<Rightarrow> 'a \<Rightarrow> 'a heap \<Rightarrow> 'a heap outcome" where
  "mstore p v h =
     (case p of
        NULL \<Rightarrow> Fail NullDeref
      | Junk \<Rightarrow> Fail UninitRead
      | At a \<Rightarrow> (case cells h a of
                 None \<Rightarrow> Fail UseAfterFree
               | Some _ \<Rightarrow> Ok (h\<lparr>cells := (cells h)(a \<mapsto> v)\<rparr>)))"

definition mfree :: "ptr \<Rightarrow> 'a heap \<Rightarrow> 'a heap outcome" where
  "mfree p h =
     (case p of
        NULL \<Rightarrow> Ok h
      | Junk \<Rightarrow> Fail BadFree
      | At a \<Rightarrow> (case cells h a of
                 None \<Rightarrow> Fail BadFree
               | Some _ \<Rightarrow> Ok (h\<lparr>cells := (cells h)(a := None)\<rparr>)))"

text \<open>Freeing the pointers of a list in order, as the destructors' loops do.\<close>

primrec free_list :: "(ptr \<Rightarrow> 'h \<Rightarrow> 'h outcome) \<Rightarrow> ptr list \<Rightarrow> 'h \<Rightarrow> 'h outcome" where
  "free_list fr [] h = Ok h"
| "free_list fr (p # ps) h = bnd (fr p h) (free_list fr ps)"

definition live :: "'a heap \<Rightarrow> ptr \<Rightarrow> bool" where
  "live h p \<longleftrightarrow> (case p of At a \<Rightarrow> cells h a \<noteq> None | _ \<Rightarrow> False)"

definition heap_ok :: "'a heap \<Rightarrow> bool" where
  "heap_ok h \<longleftrightarrow> (\<forall>a. cells h a \<noteq> None \<longrightarrow> a < brk h)"

section \<open>The interface\<close>

locale block_store =
  fixes alloc :: "'v \<Rightarrow> 'h \<Rightarrow> ptr \<times> 'h"
    and fetch :: "ptr \<Rightarrow> 'h \<Rightarrow> 'v outcome"
    and update :: "ptr \<Rightarrow> 'v \<Rightarrow> 'h \<Rightarrow> 'h outcome"
    and release :: "ptr \<Rightarrow> 'h \<Rightarrow> 'h outcome"
    and valid :: "'h \<Rightarrow> ptr \<Rightarrow> bool"
    and wf :: "'h \<Rightarrow> bool"
  assumes fetch_iff: "valid h p \<longleftrightarrow> (\<exists>v. fetch p h = Ok v)"
    and alloc_fresh: "wf h \<Longrightarrow> alloc v h = (p, h') \<Longrightarrow> \<not> valid h p"
    and alloc_wf: "wf h \<Longrightarrow> alloc v h = (p, h') \<Longrightarrow> wf h'"
    and alloc_fetch: "alloc v h = (p, h') \<Longrightarrow> fetch q h' = (if q = p then Ok v else fetch q h)"
    and update_ok: "valid h p \<Longrightarrow> \<exists>h'. update p v h = Ok h'"
    and update_wf: "update p v h = Ok h' \<Longrightarrow> wf h \<Longrightarrow> wf h'"
    and update_fetch: "update p v h = Ok h' \<Longrightarrow> fetch q h' = (if q = p then Ok v else fetch q h)"
    and release_ok: "valid h p \<Longrightarrow> \<exists>h'. release p h = Ok h'"
    and release_wf: "release p h = Ok h' \<Longrightarrow> wf h \<Longrightarrow> wf h'"
    and release_self: "valid h p \<Longrightarrow> release p h = Ok h' \<Longrightarrow> \<not> valid h' p"
    and release_frame: "release p h = Ok h' \<Longrightarrow> q \<noteq> p \<Longrightarrow> fetch q h' = fetch q h"
begin

lemma valid_alloc: "alloc v h = (p, h') \<Longrightarrow> valid h' q \<longleftrightarrow> q = p \<or> valid h q"
  by (auto simp: fetch_iff alloc_fetch)

lemma valid_update: "update p v h = Ok h' \<Longrightarrow> valid h p \<Longrightarrow> valid h' q \<longleftrightarrow> valid h q"
  by (auto simp: fetch_iff update_fetch)

lemma valid_release:
  "valid h p \<Longrightarrow> release p h = Ok h' \<Longrightarrow> valid h' q \<longleftrightarrow> valid h q \<and> q \<noteq> p"
  by (metis fetch_iff release_frame release_self)

text \<open>Freeing distinct live blocks succeeds, frees exactly those and leaves the rest alone.\<close>

lemma free_list_ok:
  assumes "distinct ps" "\<forall>p\<in>set ps. valid h p"
  shows "\<exists>h'. free_list release ps h = Ok h' \<and> (wf h \<longrightarrow> wf h') \<and>
           (\<forall>q. valid h' q \<longleftrightarrow> valid h q \<and> q \<notin> set ps) \<and>
           (\<forall>q. q \<notin> set ps \<longrightarrow> fetch q h' = fetch q h)"
  using assms
proof (induction ps arbitrary: h)
  case (Cons p ps)
  then have "valid h p" by simp
  then obtain h1 where h1: "release p h = Ok h1" using release_ok by blast
  have v1: "valid h1 q \<longleftrightarrow> valid h q \<and> q \<noteq> p" for q
    using valid_release [OF _ h1] Cons.prems by simp
  then have "distinct ps" "\<forall>p\<in>set ps. valid h1 p" using Cons.prems by auto
  from Cons.IH [OF this] obtain h2 where "free_list release ps h1 = Ok h2"
    "wf h1 \<longrightarrow> wf h2" "\<forall>q. valid h2 q \<longleftrightarrow> valid h1 q \<and> q \<notin> set ps"
    "\<forall>q. q \<notin> set ps \<longrightarrow> fetch q h2 = fetch q h1"
    by blast
  with h1 v1 show ?case
    using release_wf [OF h1] release_frame [OF h1] by (intro exI [of _ h2]) auto
qed simp

end

interpretation heap: block_store malloc mload mstore mfree live heap_ok
proof
  show "live h p \<longleftrightarrow> (\<exists>v. mload p h = Ok v)" for h :: "'a heap" and p
    by (auto simp: live_def mload_def split: ptr.splits option.splits)
  show "heap_ok h \<Longrightarrow> malloc v h = (p, h') \<Longrightarrow> \<not> live h p" for h h' :: "'a heap" and v p
    by (fastforce simp: live_def malloc_def heap_ok_def)
  show "heap_ok h \<Longrightarrow> malloc v h = (p, h') \<Longrightarrow> heap_ok h'" for h h' :: "'a heap" and v p
    by (auto simp: malloc_def heap_ok_def less_Suc_eq split: if_splits)
  show "malloc v h = (p, h') \<Longrightarrow> mload q h' = (if q = p then Ok v else mload q h)"
    for h h' :: "'a heap" and v p q
    by (auto simp: malloc_def mload_def split: ptr.splits)
  show "live h p \<Longrightarrow> \<exists>h'. mstore p v h = Ok h'" for h :: "'a heap" and p v
    by (auto simp: live_def mstore_def split: ptr.splits)
  show "mstore p v h = Ok h' \<Longrightarrow> heap_ok h \<Longrightarrow> heap_ok h'" for h h' :: "'a heap" and p v
    by (auto simp: mstore_def heap_ok_def split: ptr.splits option.splits if_splits)
  show "mstore p v h = Ok h' \<Longrightarrow> mload q h' = (if q = p then Ok v else mload q h)"
    for h h' :: "'a heap" and v p q
    by (auto simp: mstore_def mload_def split: ptr.splits option.splits if_splits)
  show "live h p \<Longrightarrow> \<exists>h'. mfree p h = Ok h'" for h :: "'a heap" and p
    by (auto simp: live_def mfree_def split: ptr.splits)
  show "mfree p h = Ok h' \<Longrightarrow> heap_ok h \<Longrightarrow> heap_ok h'" for h h' :: "'a heap" and p
    by (auto simp: mfree_def heap_ok_def split: ptr.splits option.splits if_splits)
  show "live h p \<Longrightarrow> mfree p h = Ok h' \<Longrightarrow> \<not> live h' p" for h h' :: "'a heap" and p
    by (auto simp: live_def mfree_def split: ptr.splits option.splits)
  show "mfree p h = Ok h' \<Longrightarrow> q \<noteq> p \<Longrightarrow> mload q h' = mload q h" for h h' :: "'a heap" and p q
    by (auto simp: mfree_def mload_def split: ptr.splits option.splits if_splits)
qed

lemma heap_ok_empty [simp]: "heap_ok empty_heap"
  by (simp add: heap_ok_def empty_heap_def)

lemma not_live_empty [simp]: "\<not> live empty_heap p"
  by (simp add: live_def empty_heap_def split: ptr.splits)

end
