(* ===== verification/Proto.thy ===== *)
theory Proto
  imports Prelude
begin

text \<open>
  The wire protocol of \<open>PROTO_DIST_QUEUE.h\<close>. A \<open>Msg\<close> is the packed object of
  \<open>sizeof_Msg\<close> bytes: a five byte header and a union. Its model is the byte memory of that
  object, because the code fills it from a socket as raw bytes and then reads it through
  whichever member of the union the type names. Getters and setters are loads and stores at the
  members' offsets, in the byte order \<open>e\<close> of the host that runs them.
\<close>

section \<open>Constants and enumerations\<close>

definition SZ_PATH :: nat where [const_defs]: "SZ_PATH = 256"
definition NUM_PATH :: nat where [const_defs]: "NUM_PATH = 1"
definition ARG_MAX_args :: nat where [const_defs]: "ARG_MAX_args = 20"

definition VER_1 :: u16 where [const_defs]: "VER_1 = 0x8001"

datatype Type =
    TYPE_SUB_NO_INTER | TYPE_SUB_INTERACTIVE | TYPE_SUB_RESP | TYPE_JOBSTATE
  | TYPE_JOBSTATE_RESP | TYPE_QUESTATE | TYPE_QUESTATE_RESP | TYPE_UNSUB | TYPE_UNSUB_RESP
  | TYPE_SENDJOB_NOINTER | TYPE_SENDJOB_INTER | TYPE_CH_EXEC_SER | TYPE_CH_EXEC_SER_ACK
  | TYPE_JOB_REQ | TYPE_JOB_DONE | TYPE_JOB_RUN | TYPE_JOB_SIG | TYPE_CLIENT_CLOSED
  | TYPE_SERVER_CLOSED | TYPE_BAD_PARAMS

datatype JOB_STATE =
  STATE_WAIT | STATE_RUN | STATE_FINISHED | STATE_UNSUBMITED | STATE_SIGNALED | STATE_ERROR

datatype QUEUE_STATE = STATE_AVAIL | STATE_FULL

text \<open>An enumerator converted to the \<open>uint8_t\<close> it is stored in.\<close>

primrec Type_u8 :: "Type \<Rightarrow> u8" where
  "Type_u8 TYPE_SUB_NO_INTER = 0"
| "Type_u8 TYPE_SUB_INTERACTIVE = 1"
| "Type_u8 TYPE_SUB_RESP = 2"
| "Type_u8 TYPE_JOBSTATE = 3"
| "Type_u8 TYPE_JOBSTATE_RESP = 4"
| "Type_u8 TYPE_QUESTATE = 5"
| "Type_u8 TYPE_QUESTATE_RESP = 6"
| "Type_u8 TYPE_UNSUB = 7"
| "Type_u8 TYPE_UNSUB_RESP = 8"
| "Type_u8 TYPE_SENDJOB_NOINTER = 9"
| "Type_u8 TYPE_SENDJOB_INTER = 10"
| "Type_u8 TYPE_CH_EXEC_SER = 11"
| "Type_u8 TYPE_CH_EXEC_SER_ACK = 12"
| "Type_u8 TYPE_JOB_REQ = 13"
| "Type_u8 TYPE_JOB_DONE = 14"
| "Type_u8 TYPE_JOB_RUN = 15"
| "Type_u8 TYPE_JOB_SIG = 16"
| "Type_u8 TYPE_CLIENT_CLOSED = 17"
| "Type_u8 TYPE_SERVER_CLOSED = 18"
| "Type_u8 TYPE_BAD_PARAMS = 19"

primrec JOB_STATE_u8 :: "JOB_STATE \<Rightarrow> u8" where
  "JOB_STATE_u8 STATE_WAIT = 0"
| "JOB_STATE_u8 STATE_RUN = 1"
| "JOB_STATE_u8 STATE_FINISHED = 2"
| "JOB_STATE_u8 STATE_UNSUBMITED = 3"
| "JOB_STATE_u8 STATE_SIGNALED = 4"
| "JOB_STATE_u8 STATE_ERROR = 5"

primrec QUEUE_STATE_u8 :: "QUEUE_STATE \<Rightarrow> u8" where
  "QUEUE_STATE_u8 STATE_AVAIL = 0"
| "QUEUE_STATE_u8 STATE_FULL = 1"

instantiation Type :: enum
begin

definition enum_Type :: "Type list" where
  "enum_Type =
     [TYPE_SUB_NO_INTER, TYPE_SUB_INTERACTIVE, TYPE_SUB_RESP, TYPE_JOBSTATE, TYPE_JOBSTATE_RESP,
      TYPE_QUESTATE, TYPE_QUESTATE_RESP, TYPE_UNSUB, TYPE_UNSUB_RESP, TYPE_SENDJOB_NOINTER,
      TYPE_SENDJOB_INTER, TYPE_CH_EXEC_SER, TYPE_CH_EXEC_SER_ACK, TYPE_JOB_REQ, TYPE_JOB_DONE,
      TYPE_JOB_RUN, TYPE_JOB_SIG, TYPE_CLIENT_CLOSED, TYPE_SERVER_CLOSED, TYPE_BAD_PARAMS]"

definition enum_all_Type :: "(Type \<Rightarrow> bool) \<Rightarrow> bool" where
  "enum_all_Type P = list_all P Enum.enum"

definition enum_ex_Type :: "(Type \<Rightarrow> bool) \<Rightarrow> bool" where
  "enum_ex_Type P = list_ex P Enum.enum"

instance
proof
  show univ: "(UNIV :: Type set) = set Enum.enum"
  proof (rule UNIV_eq_I)
    fix t :: Type
    show "t \<in> set Enum.enum" by (cases t) (simp_all add: enum_Type_def)
  qed
  show "distinct (Enum.enum :: Type list)" by (simp add: enum_Type_def)
  show "Enum.enum_all P \<longleftrightarrow> Ball UNIV P" for P :: "Type \<Rightarrow> bool"
    by (simp add: enum_all_Type_def univ list_all_iff)
  show "Enum.enum_ex P \<longleftrightarrow> Bex UNIV P" for P :: "Type \<Rightarrow> bool"
    by (simp add: enum_ex_Type_def univ list_ex_iff)
qed

end

text \<open>A \<open>switch\<close> over a received type byte: the enumerator it names, if any.\<close>

definition Type_of :: "u8 \<Rightarrow> Type option" where
  "Type_of b = List.find (\<lambda>t. Type_u8 t = b) Enum.enum"

definition JOB_STATE_of :: "u8 \<Rightarrow> JOB_STATE option" where
  "JOB_STATE_of b =
     List.find (\<lambda>s. JOB_STATE_u8 s = b)
       [STATE_WAIT, STATE_RUN, STATE_FINISHED, STATE_UNSUBMITED, STATE_SIGNALED, STATE_ERROR]"

lemma Type_of_u8 [simp]: "Type_of (Type_u8 t) = Some t"
  by (cases t) (simp_all add: Type_of_def enum_Type_def)

lemma Type_u8_of: "Type_of b = Some t \<Longrightarrow> Type_u8 t = b"
  by (auto simp: Type_of_def find_Some_iff)

lemma JOB_STATE_of_u8 [simp]: "JOB_STATE_of (JOB_STATE_u8 s) = Some s"
  by (cases s) (simp_all add: JOB_STATE_of_def)

lemma JOB_STATE_u8_of: "JOB_STATE_of b = Some s \<Longrightarrow> JOB_STATE_u8 s = b"
  by (auto simp: JOB_STATE_of_def split: if_splits)

lemma JOB_STATE_u8_inject [simp]: "JOB_STATE_u8 a = JOB_STATE_u8 b \<longleftrightarrow> a = b"
  by (metis JOB_STATE_of_u8 option.inject)

lemma Type_u8_inject [simp]: "Type_u8 a = Type_u8 b \<longleftrightarrow> a = b"
  by (metis Type_of_u8 option.inject)

lemma QUEUE_STATE_u8_inject [simp]: "QUEUE_STATE_u8 a = QUEUE_STATE_u8 b \<longleftrightarrow> a = b"
  by (cases a; cases b) simp_all

section \<open>Packed layout\<close>

record JobID = job_id :: u16
record QueueID = queue_id :: u8

record Job_State =
  js_state :: u8
  js_jobid :: JobID
  js_exit_value :: u8

record Queue_State =
  qs_state :: u8
  qs_queueid :: QueueID

record File_Exec =
  fe_exec_file :: "u8 list"
  fe_working_dir :: "u8 list"

definition sizeof_Header :: nat where [layout]: "sizeof_Header = 2 + 2 + 1"
definition sizeof_File_Exec :: nat where
  [layout]: "sizeof_File_Exec = SZ_PATH * NUM_PATH + SZ_PATH"
definition sizeof_JobID :: nat where [layout]: "sizeof_JobID = 2"
definition sizeof_QueueID :: nat where [layout]: "sizeof_QueueID = 1"
definition sizeof_Job_State :: nat where [layout]: "sizeof_Job_State = 1 + sizeof_JobID + 1"
definition sizeof_Queue_State :: nat where [layout]: "sizeof_Queue_State = 1 + sizeof_QueueID"
definition sizeof_Job_Exec :: nat where
  [layout]: "sizeof_Job_Exec = sizeof_JobID + sizeof_File_Exec"
definition sizeof_Job_Exec_Addr :: nat where
  [layout]: "sizeof_Job_Exec_Addr = sizeof_JobID + 2 + 4 + sizeof_File_Exec"

text \<open>The union is as large as its largest member.\<close>

definition sizeof_Msg :: nat where
  [layout]: "sizeof_Msg = sizeof_Header +
     Max {sizeof_JobID, sizeof_QueueID, sizeof_Job_State, sizeof_Queue_State, sizeof_Job_Exec,
          sizeof_Job_Exec_Addr}"

text \<open>Offsets of the members, from the first byte of the message.\<close>

definition o_sz8 :: nat where [layout]: "o_sz8 = 0"
definition o_version :: nat where [layout]: "o_version = 2"
definition o_type :: nat where [layout]: "o_type = 4"
definition o_payload :: nat where [layout]: "o_payload = sizeof_Header"
definition o_jobid :: nat where [layout]: "o_jobid = o_payload"
definition o_queueid :: nat where [layout]: "o_queueid = o_payload"
definition o_js_state :: nat where [layout]: "o_js_state = o_payload"
definition o_js_jobid :: nat where [layout]: "o_js_jobid = o_payload + 1"
definition o_js_exit :: nat where [layout]: "o_js_exit = o_payload + 1 + sizeof_JobID"
definition o_qs_state :: nat where [layout]: "o_qs_state = o_payload"
definition o_qs_queueid :: nat where [layout]: "o_qs_queueid = o_payload + 1"
definition o_je_jobid :: nat where [layout]: "o_je_jobid = o_payload"
definition o_je_exec_file :: nat where [layout]: "o_je_exec_file = o_payload + sizeof_JobID"
definition o_je_working_dir :: nat where
  [layout]: "o_je_working_dir = o_je_exec_file + SZ_PATH * NUM_PATH"
definition o_ja_jobid :: nat where [layout]: "o_ja_jobid = o_payload"
definition o_ja_port :: nat where [layout]: "o_ja_port = o_payload + sizeof_JobID"
definition o_ja_ipaddr :: nat where [layout]: "o_ja_ipaddr = o_ja_port + 2"
definition o_ja_exec_file :: nat where [layout]: "o_ja_exec_file = o_ja_ipaddr + 4"
definition o_ja_working_dir :: nat where
  [layout]: "o_ja_working_dir = o_ja_exec_file + SZ_PATH * NUM_PATH"

lemma sizeof_Msg_eq: "sizeof_Msg = 525"
  by (simp add: layout const_defs)

section \<open>Getters\<close>

definition getVersion :: "endian \<Rightarrow> mem \<Rightarrow> u16" where [msg_defs]:
  "getVersion e hdr = ntohs e (ld16 e hdr o_version)"

definition getSize8 :: "endian \<Rightarrow> mem \<Rightarrow> u16" where [msg_defs]:
  "getSize8 e hdr = ntohs e (ld16 e hdr o_sz8)"

definition getType :: "mem \<Rightarrow> u8" where [msg_defs]:
  "getType hdr = hdr o_type"

definition getExecAddr_jid :: "endian \<Rightarrow> mem \<Rightarrow> u16" where [msg_defs]:
  "getExecAddr_jid e pkg = ntohs e (ld16 e pkg o_ja_jobid)"

definition getExecAddr_ipadd :: "endian \<Rightarrow> mem \<Rightarrow> u32" where [msg_defs]:
  "getExecAddr_ipadd e pkg = ld32 e pkg o_ja_ipaddr"

definition getExecAddr_port :: "endian \<Rightarrow> mem \<Rightarrow> u16" where [msg_defs]:
  "getExecAddr_port e pkg = ld16 e pkg o_ja_port"

definition getExecAddr_fileExec_execfile :: "mem \<Rightarrow> u8 list" where [msg_defs]:
  "getExecAddr_fileExec_execfile pkg = rd pkg o_ja_exec_file (SZ_PATH * NUM_PATH)"

definition getExecAddr_fileExec_wdir :: "mem \<Rightarrow> u8 list" where [msg_defs]:
  "getExecAddr_fileExec_wdir pkg = rd pkg o_ja_working_dir SZ_PATH"

definition getExecAddr_fileExec :: "mem \<Rightarrow> File_Exec" where [msg_defs]:
  "getExecAddr_fileExec pkg =
     \<lparr>fe_exec_file = rd pkg o_ja_exec_file (SZ_PATH * NUM_PATH),
      fe_working_dir = rd pkg o_ja_working_dir SZ_PATH\<rparr>"

definition getExec_jid :: "endian \<Rightarrow> mem \<Rightarrow> u16" where [msg_defs]:
  "getExec_jid e pkg = ntohs e (ld16 e pkg o_je_jobid)"

definition getExec_fileExec :: "mem \<Rightarrow> File_Exec" where [msg_defs]:
  "getExec_fileExec pkg =
     \<lparr>fe_exec_file = rd pkg o_je_exec_file (SZ_PATH * NUM_PATH),
      fe_working_dir = rd pkg o_je_working_dir SZ_PATH\<rparr>"

definition getExec_fileExec_execfile :: "mem \<Rightarrow> u8 list" where [msg_defs]:
  "getExec_fileExec_execfile pkg = rd pkg o_je_exec_file (SZ_PATH * NUM_PATH)"

definition getExec_fileExec_wdir :: "mem \<Rightarrow> u8 list" where [msg_defs]:
  "getExec_fileExec_wdir pkg = rd pkg o_je_working_dir SZ_PATH"

definition getJobID :: "endian \<Rightarrow> mem \<Rightarrow> u16" where [msg_defs]:
  "getJobID e pkg = ntohs e (ld16 e pkg o_jobid)"

definition getJobID_NoIter :: "endian \<Rightarrow> mem \<Rightarrow> u16" where [msg_defs]:
  "getJobID_NoIter e pkg = ntohs e (ld16 e pkg o_je_jobid)"

definition getJobID_Iter :: "endian \<Rightarrow> mem \<Rightarrow> u16" where [msg_defs]:
  "getJobID_Iter e pkg = ntohs e (ld16 e pkg o_ja_jobid)"

definition getQueueID :: "mem \<Rightarrow> QueueID" where [msg_defs]:
  "getQueueID pkg = \<lparr>queue_id = pkg o_queueid\<rparr>"

definition getJobState_ID :: "endian \<Rightarrow> mem \<Rightarrow> u16" where [msg_defs]:
  "getJobState_ID e pkg = ntohs e (ld16 e pkg o_js_jobid)"

definition getJobState_State :: "mem \<Rightarrow> u8" where [msg_defs]:
  "getJobState_State pkg = pkg o_js_state"

definition getJobState_ExitValue :: "mem \<Rightarrow> u8" where [msg_defs]:
  "getJobState_ExitValue pkg = pkg o_js_exit"

definition getQueueState_ID :: "mem \<Rightarrow> u8" where [msg_defs]:
  "getQueueState_ID pkg = pkg o_qs_queueid"

definition getQueueState_State :: "mem \<Rightarrow> u8" where [msg_defs]:
  "getQueueState_State pkg = pkg o_qs_state"

section \<open>Setters\<close>

subsection \<open>Main server\<close>

definition setFileExecNoInter ::
    "endian \<Rightarrow> mem \<Rightarrow> u8 list \<Rightarrow> u8 list \<Rightarrow> u16 \<Rightarrow> mem" where [msg_defs]:
  "setFileExecNoInter e msg file_ex working_dir jid =
     (let msg = st16 e o_version (htons e VER_1) msg;
          msg = msg(o_type := Type_u8 TYPE_SENDJOB_NOINTER);
          msg = st16 e o_sz8 (htons e (of_nat (sizeof_Header + sizeof_JobID + sizeof_File_Exec))) msg;
          msg = wr o_je_exec_file (strncpy_bytes (SZ_PATH * NUM_PATH) file_ex) msg;
          msg = wr o_je_working_dir (strncpy_bytes SZ_PATH working_dir) msg;
          msg = st16 e o_je_jobid (htons e jid) msg
      in msg)"

definition setFileExecInter ::
    "endian \<Rightarrow> mem \<Rightarrow> u8 list \<Rightarrow> u8 list \<Rightarrow> u32 \<Rightarrow> u16 \<Rightarrow> u16 \<Rightarrow> mem" where [msg_defs]:
  "setFileExecInter e msg file_ex working_dir addr port jid =
     (let msg = st16 e o_version (htons e VER_1) msg;
          msg = msg(o_type := Type_u8 TYPE_SENDJOB_INTER);
          msg = st16 e o_sz8 (htons e (of_nat (sizeof_Header + sizeof_JobID + 4 + 2 + sizeof_File_Exec))) msg;
          msg = wr o_ja_exec_file (strncpy_bytes (SZ_PATH * NUM_PATH) file_ex) msg;
          msg = wr o_ja_working_dir (strncpy_bytes SZ_PATH working_dir) msg;
          msg = st16 e o_ja_jobid (htons e jid) msg;
          msg = st32 e o_ja_ipaddr addr msg;
          msg = st16 e o_ja_port port msg
      in msg)"

definition setJobState :: "endian \<Rightarrow> mem \<Rightarrow> Job_State \<Rightarrow> mem" where [msg_defs]:
  "setJobState e msg job_state =
     (let msg = st16 e o_version (htons e VER_1) msg;
          msg = msg(o_type := Type_u8 TYPE_JOBSTATE_RESP);
          msg = st16 e o_sz8 (htons e (of_nat (sizeof_Header + sizeof_Job_State))) msg;
          msg = st16 e o_js_jobid (htons e (job_id (js_jobid job_state))) msg;
          msg = msg(o_js_state := js_state job_state);
          msg = msg(o_js_exit := js_exit_value job_state)
      in msg)"

definition setQueueState :: "endian \<Rightarrow> mem \<Rightarrow> Queue_State \<Rightarrow> mem" where [msg_defs]:
  "setQueueState e msg queue_state =
     (let msg = st16 e o_version (htons e VER_1) msg;
          msg = msg(o_type := Type_u8 TYPE_QUESTATE_RESP);
          msg = st16 e o_sz8 (htons e (of_nat (sizeof_Header + sizeof_Queue_State))) msg;
          msg = msg(o_qs_queueid := queue_id (qs_queueid queue_state));
          msg = msg(o_qs_state := qs_state queue_state)
      in msg)"

definition setUnsubmit :: "endian \<Rightarrow> mem \<Rightarrow> u16 \<Rightarrow> mem" where [msg_defs]:
  "setUnsubmit e msg jobid =
     (let msg = st16 e o_version (htons e VER_1) msg;
          msg = msg(o_type := Type_u8 TYPE_UNSUB_RESP);
          msg = st16 e o_jobid (htons e jobid) msg;
          msg = st16 e o_sz8 (htons e (of_nat (sizeof_Header + sizeof_JobID))) msg
      in msg)"

definition setBadParams :: "endian \<Rightarrow> mem \<Rightarrow> mem" where [msg_defs]:
  "setBadParams e msg =
     (let msg = st16 e o_version (htons e VER_1) msg;
          msg = msg(o_type := Type_u8 TYPE_BAD_PARAMS);
          msg = st16 e o_sz8 (htons e (of_nat (sizeof_Header))) msg
      in msg)"

definition setCheckExecServer :: "endian \<Rightarrow> mem \<Rightarrow> mem" where [msg_defs]:
  "setCheckExecServer e msg =
     (let msg = st16 e o_version (htons e VER_1) msg;
          msg = msg(o_type := Type_u8 TYPE_CH_EXEC_SER);
          msg = st16 e o_sz8 (htons e (of_nat (sizeof_Header))) msg
      in msg)"

subsection \<open>Client\<close>

definition setFileExecNoInter_CLIENT ::
    "endian \<Rightarrow> mem \<Rightarrow> u8 list \<Rightarrow> u8 list \<Rightarrow> u16 \<Rightarrow> mem" where [msg_defs]:
  "setFileExecNoInter_CLIENT e msg file_ex working_dir jid =
     (let msg = st16 e o_version (htons e VER_1) msg;
          msg = msg(o_type := Type_u8 TYPE_SUB_NO_INTER);
          msg = st16 e o_sz8 (htons e (of_nat (sizeof_Header + sizeof_JobID + sizeof_File_Exec))) msg;
          msg = wr o_je_exec_file (strncpy_bytes (SZ_PATH * NUM_PATH) file_ex) msg;
          msg = wr o_je_working_dir (strncpy_bytes SZ_PATH working_dir) msg;
          msg = st16 e o_je_jobid (htons e jid) msg
      in msg)"

definition setFileExecInter_CLIENT ::
    "endian \<Rightarrow> mem \<Rightarrow> u8 list \<Rightarrow> u8 list \<Rightarrow> u32 \<Rightarrow> u16 \<Rightarrow> u16 \<Rightarrow> mem" where [msg_defs]:
  "setFileExecInter_CLIENT e msg file_ex working_dir addr port jid =
     (let msg = st16 e o_version (htons e VER_1) msg;
          msg = msg(o_type := Type_u8 TYPE_SUB_INTERACTIVE);
          msg = st16 e o_sz8 (htons e (of_nat (sizeof_Header + sizeof_JobID + 4 + 2 + sizeof_File_Exec))) msg;
          msg = wr o_ja_exec_file (strncpy_bytes (SZ_PATH * NUM_PATH) file_ex) msg;
          msg = wr o_ja_working_dir (strncpy_bytes SZ_PATH working_dir) msg;
          msg = st16 e o_ja_jobid (htons e jid) msg;
          msg = st32 e o_ja_ipaddr addr msg;
          msg = st16 e o_ja_port port msg
      in msg)"

definition setClosedConnection :: "endian \<Rightarrow> mem \<Rightarrow> mem" where [msg_defs]:
  "setClosedConnection e msg =
     (let msg = st16 e o_version (htons e VER_1) msg;
          msg = msg(o_type := Type_u8 TYPE_CLIENT_CLOSED);
          msg = st16 e o_sz8 (htons e (of_nat (sizeof_Header))) msg
      in msg)"

definition setJobID :: "endian \<Rightarrow> mem \<Rightarrow> JobID \<Rightarrow> mem" where [msg_defs]:
  "setJobID e msg jobid =
     (let msg = st16 e o_version (htons e VER_1) msg;
          msg = msg(o_type := Type_u8 TYPE_SUB_RESP);
          msg = st16 e o_jobid (htons e (job_id jobid)) msg;
          msg = st16 e o_sz8 (htons e (of_nat (sizeof_Header + sizeof_JobID))) msg
      in msg)"

definition setJobState_CLIENT :: "endian \<Rightarrow> mem \<Rightarrow> JobID \<Rightarrow> mem" where [msg_defs]:
  "setJobState_CLIENT e msg jobid =
     (let msg = st16 e o_version (htons e VER_1) msg;
          msg = msg(o_type := Type_u8 TYPE_JOBSTATE);
          msg = st16 e o_jobid (htons e (job_id jobid)) msg;
          msg = st16 e o_sz8 (htons e (of_nat (sizeof_Header + sizeof_JobID))) msg
      in msg)"

definition setQueueState_CLIENT :: "endian \<Rightarrow> mem \<Rightarrow> QueueID \<Rightarrow> mem" where [msg_defs]:
  "setQueueState_CLIENT e msg queueid =
     (let msg = st16 e o_version (htons e VER_1) msg;
          msg = msg(o_type := Type_u8 TYPE_QUESTATE);
          msg = msg(o_queueid := queue_id queueid);
          msg = st16 e o_sz8 (htons e (of_nat (sizeof_Header + sizeof_QueueID))) msg
      in msg)"

definition setUnsubmit_CLIENT :: "endian \<Rightarrow> mem \<Rightarrow> JobID \<Rightarrow> mem" where [msg_defs]:
  "setUnsubmit_CLIENT e msg jobid =
     (let msg = st16 e o_version (htons e VER_1) msg;
          msg = msg(o_type := Type_u8 TYPE_UNSUB);
          msg = st16 e o_jobid (htons e (job_id jobid)) msg;
          msg = st16 e o_sz8 (htons e (of_nat (sizeof_Header + sizeof_JobID))) msg
      in msg)"

subsection \<open>Execution server\<close>

definition setClosedConnection_ExecServer :: "endian \<Rightarrow> mem \<Rightarrow> mem" where [msg_defs]:
  "setClosedConnection_ExecServer e msg =
     (let msg = st16 e o_version (htons e VER_1) msg;
          msg = msg(o_type := Type_u8 TYPE_SERVER_CLOSED);
          msg = st16 e o_sz8 (htons e (of_nat (sizeof_Header))) msg
      in msg)"

definition setJobReq :: "endian \<Rightarrow> mem \<Rightarrow> mem" where [msg_defs]:
  "setJobReq e msg =
     (let msg = st16 e o_version (htons e VER_1) msg;
          msg = msg(o_type := Type_u8 TYPE_JOB_REQ);
          msg = st16 e o_sz8 (htons e (of_nat (sizeof_Header))) msg
      in msg)"

definition setJobRun :: "endian \<Rightarrow> mem \<Rightarrow> u16 \<Rightarrow> mem" where [msg_defs]:
  "setJobRun e msg jid =
     (let msg = st16 e o_version (htons e VER_1) msg;
          msg = msg(o_type := Type_u8 TYPE_JOB_RUN);
          msg = st16 e o_sz8 (htons e (of_nat (sizeof_Header + sizeof_Job_State))) msg;
          msg = st16 e o_js_jobid (htons e jid) msg;
          msg = msg(o_js_state := JOB_STATE_u8 STATE_RUN);
          msg = msg(o_js_exit := 0)
      in msg)"

definition setJobDone :: "endian \<Rightarrow> mem \<Rightarrow> u16 \<Rightarrow> u8 \<Rightarrow> mem" where [msg_defs]:
  "setJobDone e msg jid e_status =
     (let msg = st16 e o_version (htons e VER_1) msg;
          msg = msg(o_type := Type_u8 TYPE_JOB_DONE);
          msg = st16 e o_sz8 (htons e (of_nat (sizeof_Header + sizeof_Job_State))) msg;
          msg = st16 e o_js_jobid (htons e jid) msg;
          msg = (if e_status = 40 \<or> e_status = 41
                 then msg(o_js_state := JOB_STATE_u8 STATE_ERROR)
                 else msg(o_js_state := JOB_STATE_u8 STATE_FINISHED));
          msg = msg(o_js_exit := e_status)
      in msg)"

definition setJobSignaled :: "endian \<Rightarrow> mem \<Rightarrow> u16 \<Rightarrow> u8 \<Rightarrow> mem" where [msg_defs]:
  "setJobSignaled e msg jid e_status =
     (let msg = st16 e o_version (htons e VER_1) msg;
          msg = msg(o_type := Type_u8 TYPE_JOB_SIG);
          msg = st16 e o_sz8 (htons e (of_nat (sizeof_Header + sizeof_Job_State))) msg;
          msg = st16 e o_js_jobid (htons e jid) msg;
          msg = msg(o_js_state := JOB_STATE_u8 STATE_SIGNALED);
          msg = msg(o_js_exit := e_status)
      in msg)"

definition setCheckExecServerAck :: "endian \<Rightarrow> mem \<Rightarrow> mem" where [msg_defs]:
  "setCheckExecServerAck e msg =
     (let msg = st16 e o_version (htons e VER_1) msg;
          msg = msg(o_type := Type_u8 TYPE_CH_EXEC_SER_ACK);
          msg = st16 e o_sz8 (htons e (of_nat (sizeof_Header))) msg
      in msg)"

end
