(* ===== verification/JobQueue.thy ===== *)
theory JobQueue
  imports Memory Proto "HOL-Library.Multiset"
begin

text \<open>
  The bounded job queue of \<open>main_server.c\<close>: a ring of pointers to job records with two running
  counters. The operations are the critical sections under \<open>queue_mtx\<close>; waiting on a condition
  variable is the outcome \<open>Wait\<close>. The locale \<open>bounded_fifo\<close> is the contract the main server relies
  on, interpreted on \<open>putJob\<close> and \<open>takeJob\<close>.
\<close>

section \<open>Data\<close>

definition MAX_JOBS_QUEUE :: nat where [const_defs]: "MAX_JOBS_QUEUE = 15"

record Job_t =
  jb_id :: u16
  jb_port :: u16
  jb_ipaddr :: u32
  jb_exec_file :: "u8 list"
  jb_working_dir :: "u8 list"

type_synonym job_heap = "Job_t heap"

record Queue_t =
  q_jobs :: "ptr list"
  put_idx :: u32
  get_idx :: u32
  q_id :: u16
  q_state :: u8

section \<open>Operations\<close>

text \<open>\<open>mx\<close>, \<open>c1\<close> and \<open>c2\<close> are the return codes of the three \<open>pthread\<close> initialisers. The ring is
  not initialised.\<close>

definition QueueInit :: "int \<Rightarrow> int \<Rightarrow> int \<Rightarrow> u16 \<Rightarrow> Queue_t outcome" where
  "QueueInit mx c1 c2 qid =
     (if mx \<noteq> 0 then Fail (ProcExit (-1))
      else if c1 \<noteq> 0 then Fail (ProcExit (-1))
      else if c2 \<noteq> 0 then Fail (ProcExit (-1))
      else Ok \<lparr>q_jobs = replicate MAX_JOBS_QUEUE Junk, put_idx = 0, get_idx = 0, q_id = qid,
               q_state = QUEUE_STATE_u8 STATE_AVAIL\<rparr>)"

text \<open>The slot a counter points at.\<close>

definition slot :: "u32 \<Rightarrow> nat" where
  "slot i = unat (i mod of_nat MAX_JOBS_QUEUE)"

definition putJob :: "ptr \<Rightarrow> Queue_t \<Rightarrow> Queue_t outcome" where
  "putJob new_job q =
     (if put_idx q - get_idx q = of_nat MAX_JOBS_QUEUE then Wait
      else
        (let q = (if put_idx q - get_idx q = of_nat (MAX_JOBS_QUEUE - 1)
                  then q\<lparr>q_state := QUEUE_STATE_u8 STATE_FULL\<rparr> else q);
             q = q\<lparr>q_jobs := (q_jobs q)[slot (put_idx q) := new_job]\<rparr>;
             q = q\<lparr>put_idx := put_idx q + 1\<rparr>
         in Ok q))"

text \<open>The critical section of \<open>sendJob\<close> that takes the oldest job.\<close>

definition takeJob :: "Queue_t \<Rightarrow> (ptr \<times> Queue_t) outcome" where
  "takeJob q =
     (if put_idx q - get_idx q = 0 then Wait
      else
        (let q = (if q_state q = QUEUE_STATE_u8 STATE_FULL
                  then q\<lparr>q_state := QUEUE_STATE_u8 STATE_AVAIL\<rparr> else q);
             job = q_jobs q ! slot (get_idx q);
             q = q\<lparr>get_idx := get_idx q + 1\<rparr>
         in Ok (job, q)))"

text \<open>
  The two loops of \<open>removeJob\<close>. The first looks for the job below the limit, frees it and stops at
  its index; the second closes the gap. The ring has \<open>MAX_JOBS_QUEUE\<close> slots, an access outside is a
  fault.
\<close>

function rj_find ::
    "u16 \<Rightarrow> ptr list \<Rightarrow> nat \<Rightarrow> nat \<Rightarrow> job_heap \<Rightarrow> (nat \<times> job_heap) outcome" where
  "rj_find jobid jobs lim idx h =
     (if idx < lim then
        (if idx < MAX_JOBS_QUEUE then
           bnd (mload (jobs ! idx) h)
             (\<lambda>job. if jb_id job = jobid then bnd (mfree (jobs ! idx) h) (\<lambda>h. Ok (idx, h))
                    else rj_find jobid jobs lim (idx + 1) h)
         else Fail OutOfBounds)
      else Ok (idx, h))"
  by pat_completeness auto
termination
  by (relation "measure (\<lambda>(jobid, jobs, lim, idx, h). lim - idx)") auto

function rj_shift :: "nat \<Rightarrow> nat \<Rightarrow> ptr list \<Rightarrow> ptr list outcome" where
  "rj_shift lim idx jobs =
     (if idx < lim then
        (if idx + 1 < MAX_JOBS_QUEUE then rj_shift lim (idx + 1) (jobs[idx := jobs ! (idx + 1)])
         else Fail OutOfBounds)
      else Ok jobs)"
  by pat_completeness auto
termination
  by (relation "measure (\<lambda>(lim, idx, jobs). lim - idx)") auto

declare rj_find.simps [simp del] rj_shift.simps [simp del]

definition removeJob :: "u16 \<Rightarrow> Queue_t \<Rightarrow> job_heap \<Rightarrow> (Queue_t \<times> job_heap) outcome" where
  "removeJob jobid q h =
     (if put_idx q - get_idx q \<noteq> 0 then
        bnd (rj_find jobid (q_jobs q) (slot (put_idx q)) (slot (get_idx q)) h) (\<lambda>(idx, h).
        bnd (rj_shift (unat (put_idx q mod of_nat MAX_JOBS_QUEUE - 1)) idx (q_jobs q)) (\<lambda>jobs.
          let q = q\<lparr>q_jobs := jobs\<rparr>;
              q = q\<lparr>put_idx := put_idx q - 1\<rparr>;
              q = (if q_state q = QUEUE_STATE_u8 STATE_FULL
                   then q\<lparr>q_state := QUEUE_STATE_u8 STATE_AVAIL\<rparr> else q)
          in Ok (q, h)))
      else Ok (q, h))"

text \<open>The pointers of the queued jobs, oldest first, as the loops of \<open>QueueDestroy\<close> and
  \<open>printQueueJobs\<close> visit them.\<close>

definition qlist :: "Queue_t \<Rightarrow> ptr list" where
  "qlist q = map (\<lambda>i. q_jobs q ! slot (get_idx q + of_nat i)) [0..<unat (put_idx q - get_idx q)]"

text \<open>\<open>mx\<close>, \<open>c1\<close> and \<open>c2\<close> are the return codes of the three \<open>pthread\<close> destructors.\<close>

definition QueueDestroy :: "int \<Rightarrow> int \<Rightarrow> int \<Rightarrow> Queue_t \<Rightarrow> job_heap \<Rightarrow> job_heap outcome" where
  "QueueDestroy mx c1 c2 q h =
     (if mx \<noteq> 0 then Fail (ProcExit (-1))
      else if c1 \<noteq> 0 then Fail (ProcExit (-1))
      else if c2 \<noteq> 0 then Fail (ProcExit (-1))
      else free_list mfree (qlist q) h)"

section \<open>Invariant and contents\<close>

text \<open>
  The counters have not wrapped between \<open>get_idx\<close> and \<open>put_idx\<close>, their distance is within the ring
  and the state byte tells whether the ring is full.
\<close>

definition queue_inv :: "Queue_t \<Rightarrow> bool" where
  "queue_inv q \<longleftrightarrow>
     length (q_jobs q) = MAX_JOBS_QUEUE \<and>
     unat (get_idx q) \<le> unat (put_idx q) \<and>
     unat (put_idx q) \<le> unat (get_idx q) + MAX_JOBS_QUEUE \<and>
     q_state q = QUEUE_STATE_u8
       (if unat (put_idx q) = unat (get_idx q) + MAX_JOBS_QUEUE then STATE_FULL else STATE_AVAIL)"

text \<open>How many more jobs can be put before \<open>put_idx\<close> wraps around.\<close>

definition headroom :: "Queue_t \<Rightarrow> nat" where
  "headroom q = 2 ^ 32 - 1 - unat (put_idx q)"

lemma slot_nat: "slot i = unat i mod 15"
  by (simp add: slot_def MAX_JOBS_QUEUE_def unat_mod)

lemma slot_less [simp]: "slot i < 15"
  by (simp add: slot_nat)

lemma slot_le [simp]: "slot i \<le> 14"
  using slot_less [of i] by linarith

lemma count_nat: "queue_inv q \<Longrightarrow> unat (put_idx q - get_idx q) = unat (put_idx q) - unat (get_idx q)"
  by (simp add: queue_inv_def unat_sub word_le_nat_alt)

lemma count_word_eq:
  assumes "queue_inv q" "n < 2 ^ 32"
  shows "put_idx q - get_idx q = of_nat n \<longleftrightarrow> unat (put_idx q) - unat (get_idx q) = n"
proof -
  have "put_idx q - get_idx q = of_nat n \<longleftrightarrow> unat (put_idx q - get_idx q) = unat (of_nat n :: u32)"
    by (simp add: word_unat_eq_iff)
  then show ?thesis using assms by (simp add: count_nat unat_of_nat)
qed

lemma unat_add_small:
  fixes a :: u32
  assumes "unat a + n \<le> unat (b :: u32)"
  shows "unat (a + of_nat n) = unat a + n"
proof -
  have "unat a + n < 2 ^ 32" using assms unsigned_less [of b, where ?'a = nat] by simp
  then show ?thesis by (simp add: unat_word_ariths unat_of_nat)
qed

text \<open>The contents over natural numbers, as a window of the ring.\<close>

definition window :: "ptr list \<Rightarrow> nat \<Rightarrow> nat \<Rightarrow> ptr list" where
  "window js g n = map (\<lambda>i. js ! ((g + i) mod 15)) [0..<n]"

lemma qlist_window:
  assumes "queue_inv q"
  shows "qlist q = window (q_jobs q) (unat (get_idx q)) (unat (put_idx q) - unat (get_idx q))"
  unfolding qlist_def window_def count_nat [OF assms]
  by (intro map_cong refl) (auto simp: slot_nat intro!: arg_cong2 [where f = nth]
      arg_cong [where f = "\<lambda>n. n mod 15"] unat_add_small [of _ _ "put_idx q"])

lemma length_window [simp]: "length (window js g n) = n"
  by (simp add: window_def)

lemma length_qlist: "queue_inv q \<Longrightarrow> length (qlist q) = unat (put_idx q) - unat (get_idx q)"
  by (simp add: qlist_window)

lemma mod_window_neq:
  assumes "i < n" "n < 15"
  shows "(g + i) mod 15 \<noteq> (g + n) mod (15 :: nat)"
proof
  assume "(g + i) mod 15 = (g + n) mod 15"
  then have "15 dvd (g + n) - (g + i)"
    using assms mod_eq_dvd_iff_nat [of "g + i" "g + n" 15] by simp
  then have "15 dvd n - i" by simp
  then show False using assms by (auto dest: dvd_imp_le)
qed

lemma window_put:
  assumes "n < 15" "length js = 15"
  shows "window (js[(g + n) mod 15 := p]) g (Suc n) = window js g n @ [p]"
proof -
  have "map (\<lambda>i. js[(g + n) mod 15 := p] ! ((g + i) mod 15)) [0..<n] = window js g n"
    unfolding window_def
    by (intro map_cong refl) (auto simp: nth_list_update_neq mod_window_neq [symmetric] assms)
  moreover have "js[(g + n) mod 15 := p] ! ((g + n) mod 15) = p" using assms by simp
  ultimately show ?thesis by (simp add: window_def)
qed

lemma window_Cons: "window js g (Suc n) = js ! (g mod 15) # window js (Suc g) n"
  by (simp add: window_def upt_conv_Cons map_Suc_upt [symmetric] del: upt_Suc)

lemma putJob_full:
  assumes "queue_inv q" "length (qlist q) = MAX_JOBS_QUEUE"
  shows "putJob p q = Wait"
  using assms count_word_eq [of q MAX_JOBS_QUEUE]
  by (simp add: putJob_def length_qlist MAX_JOBS_QUEUE_def)

lemma putJob_room:
  assumes "queue_inv q" "length (qlist q) < MAX_JOBS_QUEUE" "0 < headroom q"
  shows "\<exists>q'. putJob p q = Ok q' \<and> queue_inv q' \<and> qlist q' = qlist q @ [p] \<and>
           headroom q' = headroom q - 1 \<and> get_idx q' = get_idx q \<and> q_id q' = q_id q"
proof -
  let ?g = "unat (get_idx q)" and ?n = "unat (put_idx q) - unat (get_idx q)"
  have n: "?n < 15" "?g + ?n = unat (put_idx q)"
    using assms by (auto simp: length_qlist MAX_JOBS_QUEUE_def queue_inv_def)
  have inc: "unat (put_idx q + 1) = Suc (unat (put_idx q))"
    using assms(3) by (simp add: headroom_def unat_word_ariths)
  have full: "put_idx q - get_idx q = 15 \<longleftrightarrow> ?n = 15" "put_idx q - get_idx q = 14 \<longleftrightarrow> ?n = 14"
    using count_word_eq [OF assms(1), of 15] count_word_eq [OF assms(1), of 14] by simp_all
  define q' where "q' = q\<lparr>q_state := QUEUE_STATE_u8 (if ?n = 14 then STATE_FULL else STATE_AVAIL),
      q_jobs := (q_jobs q)[(?g + ?n) mod 15 := p], put_idx := put_idx q + 1\<rparr>"
  have st: "q_state q = QUEUE_STATE_u8 STATE_AVAIL"
    using assms(1) n by (auto simp: queue_inv_def MAX_JOBS_QUEUE_def)
  have put: "putJob p q = Ok q'"
    using n full st by (auto simp: putJob_def q'_def Let_def slot_nat MAX_JOBS_QUEUE_def)
  have inv: "queue_inv q'"
    using assms(1) n inc by (auto simp: queue_inv_def q'_def MAX_JOBS_QUEUE_def)
  have "qlist q' = window ((q_jobs q)[(?g + ?n) mod 15 := p]) ?g (Suc ?n)"
    using qlist_window [OF inv] n inc by (simp add: q'_def Suc_diff_le)
  also have "\<dots> = qlist q @ [p]"
    using assms(1) n by (subst window_put) (auto simp: qlist_window queue_inv_def MAX_JOBS_QUEUE_def)
  finally show ?thesis
    using put inv inc by (auto simp: q'_def headroom_def)
qed

lemma takeJob_empty:
  assumes "queue_inv q" "qlist q = []"
  shows "takeJob q = Wait"
proof -
  have "unat (put_idx q) - unat (get_idx q) = 0" using length_qlist [OF assms(1)] assms(2) by simp
  then show ?thesis using count_word_eq [OF assms(1), of 0] by (simp add: takeJob_def)
qed

lemma takeJob_some:
  assumes "queue_inv q" "qlist q = p # ps"
  shows "\<exists>q'. takeJob q = Ok (p, q') \<and> queue_inv q' \<and> qlist q' = ps \<and>
           headroom q' = headroom q \<and> put_idx q' = put_idx q \<and> q_id q' = q_id q"
proof -
  let ?g = "unat (get_idx q)" and ?n = "unat (put_idx q) - unat (get_idx q)"
  have n: "?n = Suc (length ps)" using length_qlist [OF assms(1)] assms(2) by simp
  have ne: "put_idx q - get_idx q \<noteq> 0" using count_word_eq [OF assms(1), of 0] n by simp
  have inc: "unat (get_idx q + 1) = Suc ?g"
    using unat_add_small [of "get_idx q" 1 "put_idx q"] n by simp
  have win: "qlist q = q_jobs q ! (?g mod 15) # window (q_jobs q) (Suc ?g) (length ps)"
    using qlist_window [OF assms(1)] n by (simp add: window_Cons)
  define q' where "q' = q\<lparr>q_state := QUEUE_STATE_u8 STATE_AVAIL, get_idx := get_idx q + 1\<rparr>"
  have "takeJob q = Ok (q_jobs q ! (?g mod 15), q')"
    using ne assms(1) by (auto simp: takeJob_def q'_def slot_nat Let_def queue_inv_def)
  moreover have inv: "queue_inv q'"
    using assms(1) n inc by (auto simp: queue_inv_def q'_def MAX_JOBS_QUEUE_def)
  moreover have "unat (put_idx q) - Suc ?g = length ps" using n by simp
  then have "qlist q' = window (q_jobs q) (Suc ?g) (length ps)"
    using qlist_window [OF inv] inc by (simp add: q'_def)
  ultimately show ?thesis
    using win assms(2) by (auto simp: q'_def headroom_def)
qed

section \<open>The FIFO contract\<close>

text \<open>
  A schedule is a list of attempts to put or to take, by any threads in any order. An attempt that
  has to wait leaves the queue as it is and is made again later in the schedule. A run collects the
  values that went in and the values that came out.
\<close>

datatype 'a fifo_op = Put 'a | Take

fun fifo_run ::
    "('a \<Rightarrow> 'q \<Rightarrow> 'q outcome) \<Rightarrow> ('q \<Rightarrow> ('a \<times> 'q) outcome) \<Rightarrow> 'a fifo_op list \<Rightarrow> 'q
      \<Rightarrow> ('a list \<times> 'a list \<times> 'q) outcome" where
  "fifo_run put get [] q = Ok ([], [], q)"
| "fifo_run put get (Put x # ops) q =
     (case put x q of
        Wait \<Rightarrow> fifo_run put get ops q
      | Fail e \<Rightarrow> Fail e
      | Ok q \<Rightarrow> bnd (fifo_run put get ops q) (\<lambda>(ins, outs, q). Ok (x # ins, outs, q)))"
| "fifo_run put get (Take # ops) q =
     (case get q of
        Wait \<Rightarrow> fifo_run put get ops q
      | Fail e \<Rightarrow> Fail e
      | Ok (x, q) \<Rightarrow> bnd (fifo_run put get ops q) (\<lambda>(ins, outs, q). Ok (ins, x # outs, q)))"

locale bounded_fifo =
  fixes put :: "'a \<Rightarrow> 'q \<Rightarrow> 'q outcome"
    and get :: "'q \<Rightarrow> ('a \<times> 'q) outcome"
    and contents :: "'q \<Rightarrow> 'a list"
    and invar :: "'q \<Rightarrow> bool"
    and cap :: nat
    and room :: "'q \<Rightarrow> nat"
  assumes contents_cap: "invar q \<Longrightarrow> length (contents q) \<le> cap"
    and put_wait: "invar q \<Longrightarrow> length (contents q) = cap \<Longrightarrow> put x q = Wait"
    and put_ok: "invar q \<Longrightarrow> length (contents q) < cap \<Longrightarrow> 0 < room q \<Longrightarrow>
       \<exists>q'. put x q = Ok q' \<and> invar q' \<and> contents q' = contents q @ [x] \<and> room q' = room q - 1"
    and take_wait: "invar q \<Longrightarrow> contents q = [] \<Longrightarrow> get q = Wait"
    and take_ok: "invar q \<Longrightarrow> contents q = x # xs \<Longrightarrow>
       \<exists>q'. get q = Ok (x, q') \<and> invar q' \<and> contents q' = xs \<and> room q' = room q"
begin

lemma put_cases:
  assumes "invar q" "0 < room q"
  shows "(length (contents q) = cap \<and> put x q = Wait) \<or>
         (\<exists>q'. put x q = Ok q' \<and> invar q' \<and> contents q' = contents q @ [x] \<and> room q' = room q - 1)"
  using contents_cap [OF assms(1)] put_wait [OF assms(1)] put_ok [OF assms(1) _ assms(2)]
  by (cases "length (contents q) = cap") auto

lemma take_cases:
  assumes "invar q"
  shows "(contents q = [] \<and> get q = Wait) \<or>
         (\<exists>x q'. get q = Ok (x, q') \<and> invar q' \<and> contents q = x # contents q' \<and> room q' = room q)"
  using take_wait [OF assms] take_ok [OF assms] by (cases "contents q") auto

text \<open>Any schedule is first in, first out, loses nothing and invents nothing.\<close>

lemma run_fifo:
  assumes "invar q" "length ops \<le> room q"
  shows "\<exists>ins outs q'. fifo_run put get ops q = Ok (ins, outs, q') \<and> invar q' \<and>
           contents q @ ins = outs @ contents q'"
  using assms
proof (induction ops arbitrary: q)
  case (Cons op ops)
  show ?case
  proof (cases op)
    case (Put x)
    from Cons.prems have "0 < room q" by simp
    from put_cases [OF \<open>invar q\<close> this, of x] show ?thesis
    proof (elim disjE exE conjE)
      assume "put x q = Wait"
      then show ?thesis using Cons.IH [of q] Cons.prems Put by simp
    next
      fix q1 assume "put x q = Ok q1" "invar q1" "contents q1 = contents q @ [x]" "room q1 = room q - 1"
      then show ?thesis using Cons.IH [of q1] Cons.prems Put by force
    qed
  next
    case Take
    from take_cases [OF \<open>invar q\<close>] show ?thesis
    proof (elim disjE exE conjE)
      assume "get q = Wait"
      then show ?thesis using Cons.IH [of q] Cons.prems Take by simp
    next
      fix x q1 assume "get q = Ok (x, q1)" "invar q1" "contents q = x # contents q1" "room q1 = room q"
      then show ?thesis using Cons.IH [of q1] Cons.prems Take by force
    qed
  qed
qed simp

end

interpretation jq: bounded_fifo putJob takeJob qlist queue_inv MAX_JOBS_QUEUE headroom
proof
  show "queue_inv q \<Longrightarrow> length (qlist q) \<le> MAX_JOBS_QUEUE" for q
    by (auto simp: length_qlist queue_inv_def)
  show "queue_inv q \<Longrightarrow> length (qlist q) = MAX_JOBS_QUEUE \<Longrightarrow> putJob x q = Wait" for q x
    by (rule putJob_full)
  show "queue_inv q \<Longrightarrow> length (qlist q) < MAX_JOBS_QUEUE \<Longrightarrow> 0 < headroom q \<Longrightarrow>
      \<exists>q'. putJob x q = Ok q' \<and> queue_inv q' \<and> qlist q' = qlist q @ [x] \<and>
        headroom q' = headroom q - 1" for q x
    using putJob_room by blast
  show "queue_inv q \<Longrightarrow> qlist q = [] \<Longrightarrow> takeJob q = Wait" for q
    by (rule takeJob_empty)
  show "queue_inv q \<Longrightarrow> qlist q = x # xs \<Longrightarrow>
      \<exists>q'. takeJob q = Ok (x, q') \<and> queue_inv q' \<and> qlist q' = xs \<and> headroom q' = headroom q"
    for q x xs
    using takeJob_some by blast
qed

section \<open>Removing a job\<close>

definition has_id :: "job_heap \<Rightarrow> u16 \<Rightarrow> ptr \<Rightarrow> bool" where
  "has_id h jobid p \<longleftrightarrow> (case mload p h of Ok j \<Rightarrow> jb_id j = jobid | _ \<Rightarrow> False)"

definition lacks_id :: "job_heap \<Rightarrow> u16 \<Rightarrow> ptr \<Rightarrow> bool" where
  "lacks_id h jobid p \<longleftrightarrow> (case mload p h of Ok j \<Rightarrow> jb_id j \<noteq> jobid | _ \<Rightarrow> False)"

lemma has_id_live: "has_id h jobid p \<Longrightarrow> live h p"
  by (auto simp: has_id_def heap.fetch_iff split: outcome.splits)

lemma rj_find_stop: "lim \<le> idx \<Longrightarrow> rj_find jobid js lim idx h = Ok (idx, h)"
  by (subst rj_find.simps) simp

lemma rj_find_step:
  assumes "idx < lim" "lim \<le> 15" "lacks_id h jobid (js ! idx)"
  shows "rj_find jobid js lim idx h = rj_find jobid js lim (idx + 1) h"
  using assms
  by (subst rj_find.simps) (auto simp: lacks_id_def MAX_JOBS_QUEUE_def split: outcome.splits)

lemma rj_find_hit:
  assumes "\<forall>k<n. lacks_id h jobid (js ! (idx + k))" "has_id h jobid (js ! (idx + n))"
    and "idx + n < lim" "lim \<le> 15"
  shows "rj_find jobid js lim idx h = bnd (mfree (js ! (idx + n)) h) (\<lambda>h. Ok (idx + n, h))"
  using assms
proof (induction n arbitrary: idx)
  case 0
  then show ?case
    by (subst rj_find.simps) (auto simp: has_id_def MAX_JOBS_QUEUE_def split: outcome.splits)
next
  case (Suc n)
  have "lacks_id h jobid (js ! (idx + 0))" using Suc.prems(1) by blast
  then have "rj_find jobid js lim idx h = rj_find jobid js lim (idx + 1) h"
    using Suc.prems by (intro rj_find_step) auto
  also have "\<dots> = bnd (mfree (js ! (idx + 1 + n)) h) (\<lambda>h. Ok (idx + 1 + n, h))"
  proof (rule Suc.IH)
    show "\<forall>k<n. lacks_id h jobid (js ! (idx + 1 + k))" using Suc.prems(1) by force
  qed (use Suc.prems in auto)
  finally show ?case by simp
qed

lemma rj_find_miss:
  assumes "\<forall>k. idx \<le> k \<and> k < lim \<longrightarrow> lacks_id h jobid (js ! k)" "idx \<le> lim" "lim \<le> 15"
  shows "rj_find jobid js lim idx h = Ok (lim, h)"
  using assms(2,1,3)
proof (induction rule: inc_induct)
  case base
  show ?case by (simp add: rj_find_stop)
next
  case (step k)
  then have "rj_find jobid js lim k h = rj_find jobid js lim (k + 1) h"
    by (intro rj_find_step) auto
  with step show ?case by simp
qed

text \<open>Closing the gap below a limit inside the ring moves every later job down by one.\<close>

lemma rj_shift_ok:
  assumes "lim < 15" "length js = 15"
  shows "\<exists>js'. rj_shift lim idx js = Ok js' \<and> length js' = 15 \<and>
           (\<forall>k<15. js' ! k = (if idx \<le> k \<and> k < lim then js ! (k + 1) else js ! k))"
proof (cases "idx \<le> lim")
  case True
  then show ?thesis
    using assms
  proof (induction idx arbitrary: js rule: inc_induct)
    case base
    show ?case using base by (subst rj_shift.simps) auto
  next
    case (step n)
    let ?js = "js[n := js ! (n + 1)]"
    have "length ?js = 15" using step.prems by simp
    from step.IH [OF step.prems(1) this] obtain js' where js': "rj_shift lim (Suc n) ?js = Ok js'"
      "length js' = 15" "\<forall>k<15. js' ! k = (if Suc n \<le> k \<and> k < lim then ?js ! (k + 1) else ?js ! k)"
      by blast
    have "rj_shift lim n js = Ok js'"
      using step.hyps step.prems js'(1) by (subst rj_shift.simps) (simp add: MAX_JOBS_QUEUE_def)
    moreover have "js' ! k = (if n \<le> k \<and> k < lim then js ! (k + 1) else js ! k)" if "k < 15" for k
      using js'(3) that step.hyps step.prems by (cases "k = n") (auto simp: nth_list_update)
    ultimately show ?case using js'(2) by blast
  qed
qed (use assms in \<open>auto simp: rj_shift.simps\<close>)

text \<open>Beyond the ring the loop runs off its end.\<close>

lemma rj_shift_oob:
  assumes "15 \<le> lim" "idx \<le> 14"
  shows "rj_shift lim idx js = Fail OutOfBounds"
  using assms(2)
proof (induction idx arbitrary: js rule: inc_induct)
  case base
  show ?case using assms(1) by (subst rj_shift.simps) (simp add: MAX_JOBS_QUEUE_def)
next
  case (step n)
  then show ?case using assms(1) by (subst rj_shift.simps) (simp add: MAX_JOBS_QUEUE_def)
qed

lemma rj_shift_stop: "lim \<le> idx \<Longrightarrow> rj_shift lim idx js = Ok js"
  by (subst rj_shift.simps) simp

lemma slots_of_count:
  assumes "queue_inv q" "qlist q \<noteq> []"
  shows "(slot (get_idx q) < slot (put_idx q) \<and>
            slot (put_idx q) = slot (get_idx q) + length (qlist q)) \<or>
         (slot (put_idx q) \<le> slot (get_idx q) \<and>
            slot (put_idx q) + 15 = slot (get_idx q) + length (qlist q))"
proof -
  let ?g = "unat (get_idx q) mod 15" and ?c = "length (qlist q)"
  have "0 < ?c" using assms(2) by simp
  moreover have "?c \<le> 15" "unat (put_idx q) = unat (get_idx q) + ?c"
    using assms(1) by (auto simp: MAX_JOBS_QUEUE_def length_qlist queue_inv_def)
  ultimately have c: "0 < ?c" "?c \<le> 15" "unat (put_idx q) = unat (get_idx q) + ?c" .
  then have p: "slot (put_idx q) = (?g + ?c) mod 15" by (simp add: slot_nat mod_simps)
  have "?g < 15" by simp
  then have "?g + ?c < 15 \<or> (?g + ?c) mod 15 = ?g + ?c - 15"
    using c by (auto simp: mod_if [of "?g + ?c" 15] not_less)
  then show ?thesis using p c \<open>?g < 15\<close> by (auto simp: slot_nat)
qed

text \<open>The queue \<open>removeJob\<close> leaves, for a new ring \<open>js\<close>: one job fewer and never full.\<close>

definition shrunk :: "Queue_t \<Rightarrow> ptr list \<Rightarrow> Queue_t" where
  "shrunk q js = q\<lparr>q_jobs := js, put_idx := put_idx q - 1,
     q_state := QUEUE_STATE_u8 STATE_AVAIL\<rparr>"

lemma shrunk_inv:
  assumes "queue_inv q" "qlist q \<noteq> []" "length js = 15"
  shows "queue_inv (shrunk q js)"
    and "qlist (shrunk q js) = window js (unat (get_idx q)) (length (qlist q) - 1)"
    and "headroom (shrunk q js) = Suc (headroom q)"
proof -
  have "0 < length (qlist q)" using assms(2) by simp
  then have lt: "unat (get_idx q) < unat (put_idx q)" by (simp add: length_qlist [OF assms(1)])
  then have nz: "put_idx q \<noteq> 0" by auto
  then have dec: "unat (put_idx q - 1) = unat (put_idx q) - 1" by (simp add: unat_minus_one)
  show inv: "queue_inv (shrunk q js)"
    using assms dec lt by (auto simp: queue_inv_def shrunk_def MAX_JOBS_QUEUE_def)
  show "qlist (shrunk q js) = window js (unat (get_idx q)) (length (qlist q) - 1)"
    using qlist_window [OF inv] dec by (simp add: shrunk_def length_qlist [OF assms(1)])
  show "headroom (shrunk q js) = Suc (headroom q)"
    using dec lt unsigned_less [of "put_idx q", where ?'a = nat]
    by (simp add: headroom_def shrunk_def)
qed

lemma removeJob_nonempty:
  assumes "queue_inv q" "qlist q \<noteq> []"
    and "rj_find jobid (q_jobs q) (slot (put_idx q)) (slot (get_idx q)) h = Ok (idx, h')"
    and "rj_shift (unat (put_idx q mod of_nat MAX_JOBS_QUEUE - 1)) idx (q_jobs q) = Ok js"
  shows "removeJob jobid q h = Ok (shrunk q js, h')"
proof -
  have "0 < length (qlist q)" using assms(2) by simp
  then have "put_idx q - get_idx q \<noteq> 0"
    using count_word_eq [OF assms(1), of 0] by (simp add: length_qlist [OF assms(1)])
  moreover have "q_state q \<noteq> QUEUE_STATE_u8 STATE_FULL \<Longrightarrow> q_state q = QUEUE_STATE_u8 STATE_AVAIL"
    using assms(1) by (auto simp: queue_inv_def split: if_splits)
  ultimately show ?thesis
    using assms(3,4) by (auto simp: removeJob_def shrunk_def Let_def)
qed

lemma lim_pred: "slot (put_idx q) \<noteq> 0 \<Longrightarrow>
    unat (put_idx q mod of_nat MAX_JOBS_QUEUE - 1) = slot (put_idx q) - 1"
  unfolding slot_def by (metis unat_0 unat_minus_one)

lemma lim_wraps: "slot (put_idx q) = 0 \<Longrightarrow>
    unat (put_idx q mod of_nat MAX_JOBS_QUEUE - 1) = 2 ^ 32 - 1"
proof -
  assume "slot (put_idx q) = 0"
  then have "put_idx q mod of_nat MAX_JOBS_QUEUE = 0"
    unfolding slot_def by (simp add: unat_eq_zero)
  then show ?thesis by (simp add: unsigned_minus_1_eq_mask mask_eq_exp_minus_1)
qed

text \<open>While the occupied part of the ring does not wrap around, it is a run of consecutive slots.\<close>

lemma qlist_nth_unwrapped:
  assumes "queue_inv q" "slot (get_idx q) < slot (put_idx q)" "i < length (qlist q)"
  shows "qlist q ! i = q_jobs q ! (slot (get_idx q) + i)"
    and "slot (put_idx q) = slot (get_idx q) + length (qlist q)"
proof -
  have "qlist q \<noteq> []" using assms(3) by auto
  with slots_of_count [OF assms(1)] assms(2)
  show eq: "slot (put_idx q) = slot (get_idx q) + length (qlist q)" by fastforce
  have "slot (get_idx q) + i < 15" using eq assms(3) slot_less [of "put_idx q"] by linarith
  then have "(unat (get_idx q) + i) mod 15 = slot (get_idx q) + i"
    unfolding slot_nat by (metis mod_add_left_eq mod_less)
  then show "qlist q ! i = q_jobs q ! (slot (get_idx q) + i)"
    using assms(1,3) by (simp add: qlist_window window_def length_qlist)
qed

lemma window_butlast: "window js g (n - 1) = butlast (window js g n)"
  by (cases n) (simp_all add: window_def)

lemma window_unwrapped_nth:
  assumes "queue_inv q" "slot (get_idx q) < slot (put_idx q)" "i < length (qlist q)"
    and "i < n"
  shows "window js (unat (get_idx q)) n ! i = js ! (slot (get_idx q) + i)"
proof -
  have "slot (get_idx q) + i < 15"
    using qlist_nth_unwrapped(2) [OF assms(1-3)] assms(3) slot_less [of "put_idx q"] by linarith
  then have "(unat (get_idx q) + i) mod 15 = slot (get_idx q) + i"
    unfolding slot_nat by (metis mod_add_left_eq mod_less)
  then show ?thesis using assms(4) by (simp add: window_def)
qed

lemma removeJob_hit:
  assumes inv: "queue_inv q" and unw: "slot (get_idx q) < slot (put_idx q)"
    and cont: "qlist q = as @ p # bs"
    and before: "\<forall>r\<in>set as. lacks_id h jobid r" and hit: "has_id h jobid p"
  shows "\<exists>q' h'. removeJob jobid q h = Ok (q', h') \<and> mfree p h = Ok h' \<and>
           queue_inv q' \<and> qlist q' = as @ bs \<and> headroom q' = Suc (headroom q)"
proof -
  let ?g = "slot (get_idx q)" and ?P = "slot (put_idx q)" and ?n = "length as"
  have ne: "qlist q \<noteq> []" and len: "length (qlist q) = Suc (?n + length bs)" using cont by simp_all
  have P: "?P = ?g + length (qlist q)"
    using qlist_nth_unwrapped(2) [OF inv unw, of 0] len by simp
  have P15: "?P < 15" by simp
  have at: "q_jobs q ! (?g + i) = (as @ p # bs) ! i" if "i < length (qlist q)" for i
    using qlist_nth_unwrapped(1) [OF inv unw that] cont by simp
  have atn: "q_jobs q ! (?g + ?n) = p" using at [of ?n] len by simp
  obtain h' where h': "mfree p h = Ok h'" using has_id_live [OF hit] heap.release_ok by blast
  have "\<forall>k<?n. lacks_id h jobid (q_jobs q ! (?g + k))"
    using at len before by (simp add: nth_append)
  then have fnd: "rj_find jobid (q_jobs q) ?P ?g h = Ok (?g + ?n, h')"
    using hit atn P P15 len h' by (subst rj_find_hit [of ?n]) auto
  have "?P - 1 < 15" "length (q_jobs q) = 15"
    using inv by (auto simp: queue_inv_def MAX_JOBS_QUEUE_def less_imp_diff_less)
  from rj_shift_ok [OF this, of "?g + ?n"] obtain js where
    js: "rj_shift (?P - 1) (?g + ?n) (q_jobs q) = Ok js" "length js = 15"
    "\<forall>k<15. js ! k = (if ?g + ?n \<le> k \<and> k < ?P - 1 then q_jobs q ! (k + 1) else q_jobs q ! k)"
    by blast
  have rem: "removeJob jobid q h = Ok (shrunk q js, h')"
    using js(1) fnd lim_pred [of q] unw by (intro removeJob_nonempty [OF inv ne]) auto
  have "qlist (shrunk q js) = as @ bs"
  proof (rule nth_equalityI)
    show "length (qlist (shrunk q js)) = length (as @ bs)"
      using shrunk_inv(2) [OF inv ne js(2)] len by simp
  next
    fix i assume "i < length (qlist (shrunk q js))"
    then have i: "i < ?n + length bs" using shrunk_inv(2) [OF inv ne js(2)] len by simp
    then have "qlist (shrunk q js) ! i = js ! (?g + i)"
      using shrunk_inv(2) [OF inv ne js(2)] window_unwrapped_nth [OF inv unw, of i] len by simp
    also have "\<dots> = (if ?n \<le> i then q_jobs q ! (?g + (i + 1)) else q_jobs q ! (?g + i))"
      using js(3) i P P15 len by auto
    also have "\<dots> = (as @ bs) ! i"
      using at [of i] at [of "i + 1"] i len by (auto simp: nth_append Suc_diff_le)
    finally show "qlist (shrunk q js) ! i = (as @ bs) ! i" .
  qed
  then show ?thesis
    using rem h' shrunk_inv(1,3) [OF inv ne js(2)] by blast
qed

lemma removeJob_miss:
  assumes inv: "queue_inv q" and ne: "qlist q \<noteq> []" and nz: "slot (put_idx q) \<noteq> 0"
    and miss: "slot (put_idx q) \<le> slot (get_idx q) \<or> (\<forall>r\<in>set (qlist q). lacks_id h jobid r)"
  shows "\<exists>q'. removeJob jobid q h = Ok (q', h) \<and> queue_inv q' \<and> qlist q' = butlast (qlist q) \<and>
           headroom q' = Suc (headroom q)"
proof -
  let ?g = "slot (get_idx q)" and ?P = "slot (put_idx q)"
  have len: "length (q_jobs q) = 15" using inv by (simp add: queue_inv_def MAX_JOBS_QUEUE_def)
  have "\<exists>idx\<ge>?P. rj_find jobid (q_jobs q) ?P ?g h = Ok (idx, h)"
  proof (cases "?P \<le> ?g")
    case True
    then show ?thesis by (auto simp: rj_find_stop)
  next
    case False
    then have unw: "?g < ?P" and lack: "\<forall>r\<in>set (qlist q). lacks_id h jobid r" using miss by auto
    have "lacks_id h jobid (q_jobs q ! k)" if "?g \<le> k \<and> k < ?P" for k
    proof -
      have k: "k - ?g < length (qlist q)"
        using that slots_of_count [OF inv ne] unw by auto
      then have "q_jobs q ! k = qlist q ! (k - ?g)"
        using qlist_nth_unwrapped(1) [OF inv unw k] that by simp
      then show ?thesis using lack k by simp
    qed
    then have "rj_find jobid (q_jobs q) ?P ?g h = Ok (?P, h)"
      using unw less_imp_le [OF slot_less] by (intro rj_find_miss) auto
    then show ?thesis by blast
  qed
  then obtain idx where idx: "?P \<le> idx" "rj_find jobid (q_jobs q) ?P ?g h = Ok (idx, h)" by blast
  have "rj_shift (unat (put_idx q mod of_nat MAX_JOBS_QUEUE - 1)) idx (q_jobs q) = Ok (q_jobs q)"
    using idx(1) nz by (simp add: lim_pred rj_shift_stop)
  then have "removeJob jobid q h = Ok (shrunk q (q_jobs q), h)"
    by (rule removeJob_nonempty [OF inv ne idx(2)])
  moreover have "qlist (shrunk q (q_jobs q)) = butlast (qlist q)"
    using shrunk_inv(2) [OF inv ne len] window_butlast [of "q_jobs q" _ "length (qlist q)"]
    by (simp add: qlist_window [OF inv] length_qlist [OF inv])
  ultimately show ?thesis using shrunk_inv(1,3) [OF inv ne len] by blast
qed

lemma removeJob_overrun_aux:
  assumes "queue_inv q" "qlist q \<noteq> []" "slot (put_idx q) = 0"
  shows "removeJob jobid q h = Fail OutOfBounds"
proof -
  have "0 < length (qlist q)" using assms(2) by simp
  then have "put_idx q - get_idx q \<noteq> 0"
    using count_word_eq [OF assms(1), of 0] by (simp add: length_qlist [OF assms(1)])
  moreover have "rj_find jobid (q_jobs q) (slot (put_idx q)) (slot (get_idx q)) h =
      Ok (slot (get_idx q), h)"
    using assms(3) by (simp add: rj_find_stop)
  moreover have "rj_shift (unat (put_idx q mod of_nat MAX_JOBS_QUEUE - 1)) (slot (get_idx q)) (q_jobs q) =
      Fail OutOfBounds"
    using assms(3) slot_less [of "get_idx q"] by (intro rj_shift_oob) (auto simp: lim_wraps)
  ultimately show ?thesis by (simp add: removeJob_def)
qed

section \<open>Properties\<close>

lemma QueueInit_ok:
  "QueueInit 0 0 0 qid = Ok q \<Longrightarrow> queue_inv q \<and> qlist q = [] \<and> headroom q = 2 ^ 32 - 1"
  by (auto simp: QueueInit_def queue_inv_def qlist_def headroom_def MAX_JOBS_QUEUE_def)



text \<open>The state byte is exact. In every state the invariant describes, the queue reports
  \<open>STATE_FULL\<close> if and only if it holds 15 jobs, which is if and only if \<open>putJob\<close> has to wait; and
  \<open>takeJob\<close> has to wait if and only if the queue is empty.\<close>

theorem queue_state_exact:
  assumes "queue_inv q" "0 < headroom q"
  shows "(q_state q = QUEUE_STATE_u8 STATE_FULL \<longleftrightarrow> length (qlist q) = MAX_JOBS_QUEUE) \<and>
         (putJob p q = Wait \<longleftrightarrow> length (qlist q) = MAX_JOBS_QUEUE) \<and>
         (takeJob q = Wait \<longleftrightarrow> qlist q = [])"
proof -
  have "q_state q = QUEUE_STATE_u8 STATE_FULL \<longleftrightarrow> length (qlist q) = MAX_JOBS_QUEUE"
    using assms(1) by (auto simp: length_qlist queue_inv_def MAX_JOBS_QUEUE_def)
  then show ?thesis
    using jq.put_cases [OF assms, of p] jq.put_wait [OF assms(1), of p] jq.take_cases [OF assms(1)]
    by auto
qed

theorem queue_state_exact_witness:
  "takeJob \<lparr>q_jobs = replicate MAX_JOBS_QUEUE Junk, put_idx = 0, get_idx = 0, q_id = 0, q_state = 0\<rparr> =
     Wait"
proof -
  let ?q = "\<lparr>q_jobs = replicate MAX_JOBS_QUEUE Junk, put_idx = 0, get_idx = 0, q_id = 0, q_state = 0\<rparr>"
  have "queue_inv ?q" "0 < headroom ?q"
    by (simp_all add: queue_inv_def headroom_def MAX_JOBS_QUEUE_def)
  from queue_state_exact [OF this, of NULL] show ?thesis by (simp add: qlist_def)
qed

text \<open>C28: while the occupied slots do not wrap around the ring, \<open>removeJob\<close> of a queued job frees
  exactly the first job with that id, keeps the order of the others and the invariant.\<close>

theorem removeJob_exact:
  assumes "queue_inv q" "slot (get_idx q) < slot (put_idx q)" "qlist q = as @ p # bs"
    and "\<forall>r\<in>set as. lacks_id h jobid r" "has_id h jobid p"
  shows "\<exists>q' h'. removeJob jobid q h = Ok (q', h') \<and> mfree p h = Ok h' \<and> \<not> live h' p \<and>
           queue_inv q' \<and> qlist q' = as @ bs"
  using removeJob_hit [OF assms] heap.release_self [OF has_id_live [OF assms(5)]] by blast

text \<open>Example data for the witnesses: three jobs with ids 0, 1 and 2.\<close>

definition ex_job :: "u16 \<Rightarrow> Job_t" where
  "ex_job i = \<lparr>jb_id = i, jb_port = 0, jb_ipaddr = 0, jb_exec_file = [108, 115, 10, 0],
     jb_working_dir = [47, 0]\<rparr>"

definition ex_heap :: job_heap where
  "ex_heap = \<lparr>cells = [0 \<mapsto> ex_job 0, 1 \<mapsto> ex_job 1, 2 \<mapsto> ex_job 2], brk = 3\<rparr>"

definition ex_queue :: "u32 \<Rightarrow> u32 \<Rightarrow> ptr list \<Rightarrow> Queue_t" where
  "ex_queue g p js = \<lparr>q_jobs = js, put_idx = p, get_idx = g, q_id = 0, q_state = 0\<rparr>"

lemmas ex_defs = ex_job_def ex_heap_def ex_queue_def queue_inv_def qlist_def slot_nat
  has_id_def lacks_id_def mload_def MAX_JOBS_QUEUE_def upt_conv_Cons

theorem removeJob_exact_witness:
  "\<exists>q' h'. removeJob 1 (ex_queue 0 3 ([At 0, At 1, At 2] @ replicate 12 Junk)) ex_heap = Ok (q', h') \<and>
      mfree (At 1) ex_heap = Ok h' \<and> \<not> live h' (At 1) \<and> queue_inv q' \<and> qlist q' = [At 0] @ [At 2]"
  by (rule removeJob_exact) (simp_all add: ex_defs)



text \<open>When \<open>put_idx\<close> is a multiple of the ring size and the queue is not empty, the limit of the
  second loop of \<open>removeJob\<close> wraps to the largest unsigned value and the loop leaves the array.\<close>

theorem removeJob_overrun:
  assumes "queue_inv q" "qlist q \<noteq> []" "slot (put_idx q) = 0"
  shows "removeJob jobid q h = Fail OutOfBounds"
  by (rule removeJob_overrun_aux [OF assms])

theorem removeJob_overrun_witness:
  "removeJob 1 (ex_queue 13 15 (replicate 13 Junk @ [At 0, At 1])) ex_heap = Fail OutOfBounds"
  by (rule removeJob_overrun) (simp_all add: ex_defs)

text \<open>\<open>QueueDestroy\<close> frees every queued job once: if the queued pointers are live and distinct it
  ends without fault, and afterwards exactly those blocks are gone.\<close>

theorem QueueDestroy_frees_all:
  assumes "distinct (qlist q)" "\<forall>p\<in>set (qlist q). live h p"
  shows "\<exists>h'. QueueDestroy 0 0 0 q h = Ok h' \<and> (\<forall>p. live h' p \<longleftrightarrow> live h p \<and> p \<notin> set (qlist q))"
  using heap.free_list_ok [OF assms] by (auto simp: QueueDestroy_def)

theorem QueueDestroy_frees_all_witness:
  "\<exists>h'. QueueDestroy 0 0 0 (ex_queue 0 3 ([At 0, At 1, At 2] @ replicate 12 Junk)) ex_heap = Ok h' \<and>
      \<not> live h' (At 2)"
proof -
  let ?q = "ex_queue 0 3 ([At 0, At 1, At 2] @ replicate 12 Junk)"
  have "distinct (qlist ?q)" "\<forall>p\<in>set (qlist ?q). live ex_heap p" "At 2 \<in> set (qlist ?q)"
    by (simp_all add: ex_defs live_def)
  then show ?thesis using QueueDestroy_frees_all [of ?q ex_heap] by blast
qed

text \<open>The ring is not continuous where the 32-bit counters wrap (2 to the 32 is not a multiple
  of 15): the two jobs put at the wrap share one slot, so the first is lost and the second is taken
  twice.\<close>

theorem put_idx_wrap_loses_job:
  "\<exists>q'. fifo_run putJob takeJob [Put x, Put y, Take, Take]
      (ex_queue (2 ^ 32 - 1) (2 ^ 32 - 1) (replicate MAX_JOBS_QUEUE Junk)) = Ok ([x, y], [y, y], q')"
  by (simp add: ex_queue_def putJob_def takeJob_def slot_def MAX_JOBS_QUEUE_def Let_def)

end
