(* ===== verification/History.thy ===== *)
theory History
  imports JobQueue
begin

text \<open>
  The job history of the main server: an array of ten pointers to \<open>JobHistory_t\<close> records, filled
  round robin by job id and searched linearly. The state of the server process is the C structure
  \<open>MainServer_t\<close> extended by the two heaps it points into. The operations are the critical sections
  under \<open>job_hist_mtx\<close>; the locale \<open>job_table\<close> is what the request handlers rely on.
\<close>

section \<open>Data\<close>

definition JOB_HISTORY_MAX :: nat where [const_defs]: "JOB_HISTORY_MAX = 10"
definition NUM_QUEUE_MAX :: nat where [const_defs]: "NUM_QUEUE_MAX = 1"

record JobHistory_t =
  jh_id :: u16
  jh_ipaddr :: u32
  jh_state :: u8
  jh_exit_status :: u8
  jh_queue_idx :: u8
  jh_submitTime :: int
  jh_startProcTime :: int
  jh_endProcTime :: int

type_synonym hist_heap = "JobHistory_t heap"

record MainServer_t =
  job_array :: "ptr list"
  history_putidx :: u32
  queue :: "Queue_t list"
  queue2put :: u32
  queue2get :: u32

record server = MainServer_t +
  job_mem :: job_heap
  hist_mem :: hist_heap

section \<open>Operations\<close>

function findJob_loop :: "u16 \<Rightarrow> ptr list \<Rightarrow> hist_heap \<Rightarrow> nat \<Rightarrow> int outcome" where
  "findJob_loop jobid ja h i =
     (if i < JOB_HISTORY_MAX then
        (if ja ! i \<noteq> NULL then
           bnd (mload (ja ! i) h)
             (\<lambda>jh. if jh_id jh = jobid then Ok (int i)
                   else if i + 1 = JOB_HISTORY_MAX then Ok (-1)
                   else findJob_loop jobid ja h (i + 1))
         else Ok (-1))
      else Fail OutOfBounds)"
  by pat_completeness auto
termination
  by (relation "measure (\<lambda>(jobid, ja, h, i). JOB_HISTORY_MAX - i)") auto

declare findJob_loop.simps [simp del]

definition findJob :: "u16 \<Rightarrow> server \<Rightarrow> int outcome" where
  "findJob jobid s = findJob_loop jobid (job_array s) (hist_mem s) 0"

text \<open>\<open>main_server->job_array[idx]\<close> read, and updated through the pointer; the index is a C
  \<open>int\<close>.\<close>

definition hist_at :: "int \<Rightarrow> server \<Rightarrow> JobHistory_t outcome" where
  "hist_at idx s =
     (if 0 \<le> idx \<and> idx < int JOB_HISTORY_MAX then mload (job_array s ! nat idx) (hist_mem s)
      else Fail OutOfBounds)"

definition hist_set :: "int \<Rightarrow> (JobHistory_t \<Rightarrow> JobHistory_t) \<Rightarrow> server \<Rightarrow> server outcome" where
  "hist_set idx f s =
     bnd (hist_at idx s) (\<lambda>jh.
     bnd (mstore (job_array s ! nat idx) (f jh) (hist_mem s)) (\<lambda>h.
       Ok (s\<lparr>hist_mem := h\<rparr>)))"

text \<open>\<open>now\<close> is what \<open>time\<close> returns. The record was not initialised before, so \<open>exit_status\<close> keeps
  whatever the allocated block contained.\<close>

definition setParamsNewJobHistory :: "JobHistory_t \<Rightarrow> u16 \<Rightarrow> u32 \<Rightarrow> int \<Rightarrow> JobHistory_t" where
  "setParamsNewJobHistory jh queue_idx ipaddr now =
     jh\<lparr>jh_queue_idx := ucast queue_idx, jh_ipaddr := ipaddr,
        jh_state := JOB_STATE_u8 STATE_WAIT, jh_startProcTime := 0, jh_endProcTime := 0,
        jh_submitTime := now\<rparr>"

text \<open>The critical section of \<open>newJob\<close> that gives the job its id and records it: the counter is
  32 bits wide, the id 16.\<close>

definition registerJob :: "ptr \<Rightarrow> server \<Rightarrow> (u16 \<times> server) outcome" where
  "registerJob job_history s =
     bnd (mload job_history (hist_mem s)) (\<lambda>jh.
     let jid = ucast (history_putidx s) :: u16;
         s = s\<lparr>history_putidx := history_putidx s + 1\<rparr>;
         i = unat jid mod JOB_HISTORY_MAX
     in bnd (mstore job_history (jh\<lparr>jh_id := jid\<rparr>) (hist_mem s)) (\<lambda>h.
        bnd (if unat jid \<ge> JOB_HISTORY_MAX then mfree (job_array s ! i) h else Ok h) (\<lambda>h.
          Ok (jid, s\<lparr>hist_mem := h, job_array := (job_array s)[i := job_history]\<rparr>))))"

text \<open>Whether a state byte that arrived over the network is one \<open>changeStateJob\<close> accepts, and the
  time it records for it; any other value reaches \<open>assert(0)\<close>.\<close>

definition changeStateJob_time :: "u8 \<Rightarrow> int \<Rightarrow> JobHistory_t \<Rightarrow> JobHistory_t outcome" where
  "changeStateJob_time state now jh =
     (case JOB_STATE_of state of
        Some STATE_FINISHED \<Rightarrow> Ok (jh\<lparr>jh_endProcTime := now\<rparr>)
      | Some STATE_SIGNALED \<Rightarrow> Ok (jh\<lparr>jh_endProcTime := now\<rparr>)
      | Some STATE_ERROR \<Rightarrow> Ok (jh\<lparr>jh_endProcTime := now\<rparr>)
      | Some STATE_RUN \<Rightarrow> Ok (jh\<lparr>jh_startProcTime := now\<rparr>)
      | _ \<Rightarrow> Fail AssertFail)"

definition changeStateJob :: "endian \<Rightarrow> mem \<Rightarrow> int \<Rightarrow> server \<Rightarrow> server outcome" where
  "changeStateJob e pkg now s =
     (let job_id = getJobState_ID e pkg;
          state = getJobState_State pkg;
          exit_value = getJobState_ExitValue pkg
      in bnd (findJob job_id s) (\<lambda>hist_idx.
         if hist_idx \<ge> 0 \<and> hist_idx < int JOB_HISTORY_MAX then
           bnd (hist_at hist_idx s) (\<lambda>jh.
           bnd (changeStateJob_time state now (jh\<lparr>jh_state := state, jh_exit_status := exit_value\<rparr>))
             (\<lambda>jh. hist_set hist_idx (\<lambda>_. jh) s))
         else Ok s))"

text \<open>\<open>printHistoryJobs\<close> reads the recorded entries in slot order; its output is modelled as the
  list of the records it prints.\<close>

primrec load_all :: "ptr list \<Rightarrow> 'a heap \<Rightarrow> 'a list outcome" where
  "load_all [] h = Ok []"
| "load_all (p # ps) h = bnd (mload p h) (\<lambda>x. bnd (load_all ps h) (\<lambda>xs. Ok (x # xs)))"

definition printHistoryJobs :: "server \<Rightarrow> JobHistory_t list outcome" where
  "printHistoryJobs s =
     (let idx = (if unat (history_putidx s) \<ge> JOB_HISTORY_MAX then JOB_HISTORY_MAX
                 else unat (history_putidx s))
      in load_all (take idx (job_array s)) (hist_mem s))"

section \<open>Invariant\<close>

text \<open>
  The first slots, as many as jobs were recorded but at most ten, hold live records, each in the
  slot its id selects; the others are null. Two slots never share an id or a record.
\<close>

definition filled :: "server \<Rightarrow> nat" where
  "filled s = min JOB_HISTORY_MAX (unat (history_putidx s))"

definition hist_inv :: "server \<Rightarrow> bool" where
  "hist_inv s \<longleftrightarrow>
     length (job_array s) = JOB_HISTORY_MAX \<and> heap_ok (hist_mem s) \<and>
     (\<forall>i<JOB_HISTORY_MAX.
        if i < filled s
        then \<exists>jh. mload (job_array s ! i) (hist_mem s) = Ok jh \<and> unat (jh_id jh) mod JOB_HISTORY_MAX = i
        else job_array s ! i = NULL)"

definition id_slot :: "u16 \<Rightarrow> nat" where
  "id_slot j = unat j mod JOB_HISTORY_MAX"

text \<open>What the history says about a job id.\<close>

definition lookup :: "server \<Rightarrow> u16 \<rightharpoonup> JobHistory_t" where
  "lookup s j =
     (if id_slot j < filled s then
        (case mload (job_array s ! id_slot j) (hist_mem s) of
           Ok jh \<Rightarrow> if jh_id jh = j then Some jh else None
         | _ \<Rightarrow> None)
      else None)"

lemma id_slot_less [simp]: "id_slot j < 10"
  by (simp add: id_slot_def JOB_HISTORY_MAX_def)

lemma filled_le [simp]: "filled s \<le> 10"
  by (simp add: filled_def JOB_HISTORY_MAX_def)

lemma hist_inv_len: "hist_inv s \<Longrightarrow> length (job_array s) = 10"
  by (simp add: hist_inv_def JOB_HISTORY_MAX_def)

lemma hist_inv_entry:
  assumes "hist_inv s" "i < filled s"
  obtains jh where "mload (job_array s ! i) (hist_mem s) = Ok jh" "id_slot (jh_id jh) = i"
proof -
  have "i < JOB_HISTORY_MAX" using assms(2) by (simp add: filled_def)
  then have "\<exists>jh. mload (job_array s ! i) (hist_mem s) = Ok jh \<and> id_slot (jh_id jh) = i"
    using assms unfolding hist_inv_def id_slot_def by meson
  then show ?thesis using that by blast
qed

lemma hist_inv_live: "hist_inv s \<Longrightarrow> i < filled s \<Longrightarrow> live (hist_mem s) (job_array s ! i)"
  by (metis heap.fetch_iff hist_inv_entry)

lemma hist_inv_null: "hist_inv s \<Longrightarrow> filled s \<le> i \<Longrightarrow> i < 10 \<Longrightarrow> job_array s ! i = NULL"
  by (auto simp: hist_inv_def JOB_HISTORY_MAX_def)

lemma hist_inv_inj:
  assumes "hist_inv s" "i < filled s" "k < filled s" "job_array s ! i = job_array s ! k"
  shows "i = k"
  using assms by (metis hist_inv_entry outcome.inject(1))

lemma live_not_NULL: "live h p \<Longrightarrow> p \<noteq> NULL"
  by (auto simp: live_def)

text \<open>The linear search is a direct access at the slot of the id.\<close>

lemma lookup_at_slot:
  assumes "mload (job_array s ! id_slot j) (hist_mem s) = Ok jh" "id_slot j < filled s"
  shows "lookup s j = (if jh_id jh = j then Some jh else None)"
  using assms by (simp add: lookup_def)

lemma lookup_filled: "lookup s j \<noteq> None \<Longrightarrow> id_slot j < filled s"
  by (auto simp: lookup_def split: if_splits)

lemma findJob_loop_unfold:
  assumes "hist_inv s" "i \<le> 9"
  shows "findJob_loop j (job_array s) (hist_mem s) i =
     (if i < filled s then
        (if lookup s j \<noteq> None \<and> id_slot j = i then Ok (int i)
         else if i = 9 then Ok (-1) else findJob_loop j (job_array s) (hist_mem s) (Suc i))
      else Ok (-1))"
proof (cases "i < filled s")
  case True
  with assms(1) obtain jh where jh: "mload (job_array s ! i) (hist_mem s) = Ok jh"
    "id_slot (jh_id jh) = i" by (rule hist_inv_entry)
  have "jh_id jh = j \<longleftrightarrow> lookup s j \<noteq> None \<and> id_slot j = i"
    using jh True lookup_at_slot [of s j jh] by (cases "id_slot j = i") auto
  then show ?thesis
    using True jh(1) assms(2) live_not_NULL [OF hist_inv_live [OF assms(1) True]]
    by (subst findJob_loop.simps) (simp add: JOB_HISTORY_MAX_def)
next
  case False
  then show ?thesis
    using hist_inv_null [OF assms(1), of i] assms(2)
    by (subst findJob_loop.simps) (simp add: JOB_HISTORY_MAX_def)
qed

lemma findJob_loop_eq:
  assumes "hist_inv s" "i \<le> 9"
  shows "findJob_loop j (job_array s) (hist_mem s) i =
           Ok (if i \<le> id_slot j \<and> lookup s j \<noteq> None then int (id_slot j) else -1)"
  using assms(2)
proof (induction rule: inc_induct)
  case base
  have "9 \<le> id_slot j \<longleftrightarrow> id_slot j = 9" using id_slot_less [of j] by linarith
  then show ?case
    using lookup_filled [of s j] by (auto simp: findJob_loop_unfold [OF assms(1)])
next
  case (step i)
  then show ?case
    using lookup_filled [of s j] by (auto simp: findJob_loop_unfold [OF assms(1)] Suc_le_eq le_less)
qed

lemma findJob_eq:
  "hist_inv s \<Longrightarrow> findJob j s = Ok (if lookup s j \<noteq> None then int (id_slot j) else -1)"
  by (simp add: findJob_def findJob_loop_eq)

lemma hist_at_found:
  assumes "lookup s j = Some jh"
  shows "hist_at (int (id_slot j)) s = Ok jh"
  using assms id_slot_less [of j]
  by (auto simp: lookup_def hist_at_def JOB_HISTORY_MAX_def simp del: id_slot_less
      split: if_splits outcome.splits)

lemma lookup_id: "lookup s j = Some jh \<Longrightarrow> jh_id jh = j"
  by (auto simp: lookup_def split: if_splits outcome.splits)

text \<open>Writing through the pointer of a found job changes the history at that id only.\<close>

lemma hist_set_found:
  assumes "hist_inv s" "lookup s j = Some jh" "jh_id (f jh) = jh_id jh"
  shows "\<exists>s'. hist_set (int (id_slot j)) f s = Ok s' \<and> hist_inv s' \<and>
           lookup s' = (lookup s)(j \<mapsto> f jh) \<and>
           (\<exists>h. s' = s\<lparr>hist_mem := h\<rparr> \<and> (\<forall>p. live h p \<longleftrightarrow> live (hist_mem s) p))"
proof -
  let ?p = "job_array s ! id_slot j"
  have fl: "id_slot j < filled s" using assms(2) lookup_filled by auto
  have ld: "mload ?p (hist_mem s) = Ok jh"
    using assms(2) fl by (auto simp: lookup_def split: outcome.splits if_splits)
  have lv: "live (hist_mem s) ?p" using ld heap.fetch_iff by blast
  then obtain h where h: "mstore ?p (f jh) (hist_mem s) = Ok h"
    using heap.update_ok [of "hist_mem s" ?p "f jh"] by blast
  let ?s = "s\<lparr>hist_mem := h\<rparr>"
  have set: "hist_set (int (id_slot j)) f s = Ok ?s"
    using h by (simp add: hist_set_def hist_at_found [OF assms(2)])
  have fil: "filled ?s = filled s" by (simp add: filled_def)
  have mem: "mload (job_array s ! i) h =
      (if i = id_slot j then Ok (f jh) else mload (job_array s ! i) (hist_mem s))"
    if "i < filled s" for i
    using heap.update_fetch [OF h] hist_inv_inj [OF assms(1) that fl] by auto
  have inv: "hist_inv ?s"
    unfolding hist_inv_def
  proof (intro conjI allI impI)
    show "length (job_array ?s) = JOB_HISTORY_MAX" using assms(1) by (simp add: hist_inv_def)
    show "heap_ok (hist_mem ?s)" using heap.update_wf [OF h] assms(1) by (simp add: hist_inv_def)
  next
    fix i assume i: "i < JOB_HISTORY_MAX"
    show "if i < filled ?s
      then \<exists>jh. mload (job_array ?s ! i) (hist_mem ?s) = Ok jh \<and> unat (jh_id jh) mod JOB_HISTORY_MAX = i
      else job_array ?s ! i = NULL"
      using assms(1,3) i mem [of i] lookup_id [OF assms(2)]
      by (auto simp: fil hist_inv_def id_slot_def)
  qed
  have "lookup ?s = (lookup s)(j \<mapsto> f jh)"
  proof (rule ext)
    fix k
    show "lookup ?s k = ((lookup s)(j \<mapsto> f jh)) k"
      using mem [of "id_slot k"] fl assms(3) lookup_id [OF assms(2)] ld
      by (auto simp: lookup_def fil split: outcome.splits)
  qed
  then show ?thesis
    using set inv heap.valid_update [OF h lv] by (intro exI [of _ ?s]) (auto intro!: exI [of _ h])
qed

section \<open>Recording a job\<close>

lemma unat_ucast_id: "unat (ucast (w :: u32) :: u16) = unat w mod 65536"
  by (simp add: unsigned_ucast_eq take_bit_eq_mod)

lemma registerJob_heap:
  assumes "hist_inv s" "mload p (hist_mem s) = Ok jh" "p \<notin> set (job_array s)"
    and "unat (history_putidx s) < 2 ^ 32 - 1"
    and jid: "jid = (ucast (history_putidx s) :: u16)"
  shows "\<exists>h. registerJob p s = Ok (jid, s\<lparr>history_putidx := history_putidx s + 1, hist_mem := h,
               job_array := (job_array s)[id_slot jid := p]\<rparr>) \<and> heap_ok h \<and>
           mload p h = Ok (jh\<lparr>jh_id := jid\<rparr>) \<and>
           (\<forall>i<filled s. i \<noteq> id_slot jid \<longrightarrow>
              mload (job_array s ! i) h = mload (job_array s ! i) (hist_mem s)) \<and>
           (\<forall>q. live h q \<longleftrightarrow> live (hist_mem s) q \<and>
              \<not> (10 \<le> unat jid \<and> q = job_array s ! id_slot jid))"
proof -
  let ?i = "id_slot jid" and ?old = "job_array s ! id_slot jid"
  have lp: "live (hist_mem s) p" using assms(2) heap.fetch_iff by blast
  then obtain h1 where h1: "mstore p (jh\<lparr>jh_id := jid\<rparr>) (hist_mem s) = Ok h1"
    using heap.update_ok [of "hist_mem s" p] by blast
  have lv1: "live h1 q \<longleftrightarrow> live (hist_mem s) q" for q using heap.valid_update [OF h1 lp] .
  have ok1: "heap_ok h1" using heap.update_wf [OF h1] assms(1) by (simp add: hist_inv_def)
  have np: "job_array s ! i \<noteq> p" if "i < 10" for i
    using assms(3) that hist_inv_len [OF assms(1)] by (metis nth_mem)
  have ld1: "mload (job_array s ! i) h1 = mload (job_array s ! i) (hist_mem s)" if "i < 10" for i
    using heap.update_fetch [OF h1] np [OF that] by simp
  show ?thesis
  proof (cases "10 \<le> unat jid")
    case True
    then have fl: "filled s = 10" by (simp add: jid unat_ucast_id filled_def JOB_HISTORY_MAX_def)
    have lo: "live h1 ?old" using lv1 hist_inv_live [OF assms(1), of ?i] fl by simp
    then obtain h where h: "mfree ?old h1 = Ok h" using heap.release_ok by blast
    have "registerJob p s = Ok (jid, s\<lparr>history_putidx := history_putidx s + 1, hist_mem := h,
        job_array := (job_array s)[?i := p]\<rparr>)"
      using assms(2) h1 h True
      by (simp add: registerJob_def Let_def jid [symmetric] id_slot_def [symmetric] JOB_HISTORY_MAX_def)
        (simp add: id_slot_def JOB_HISTORY_MAX_def)
    moreover have "mload (job_array s ! i) h = mload (job_array s ! i) (hist_mem s)"
      if "i < filled s" "i \<noteq> ?i" for i
    proof -
      have "job_array s ! i \<noteq> ?old" using hist_inv_inj [OF assms(1) that(1), of ?i] that fl by auto
      from heap.release_frame [OF h this] show ?thesis using ld1 [of i] that fl by simp
    qed
    ultimately show ?thesis
      using heap.release_wf [OF h ok1] heap.release_frame [OF h, of p] np [of ?i]
        heap.update_fetch [OF h1, of p] heap.valid_release [OF lo h] lv1 True
      by (intro exI [of _ h]) auto
  next
    case False
    have "registerJob p s = Ok (jid, s\<lparr>history_putidx := history_putidx s + 1, hist_mem := h1,
        job_array := (job_array s)[?i := p]\<rparr>)"
      using assms(2) h1 False
      by (simp add: registerJob_def Let_def jid [symmetric] id_slot_def JOB_HISTORY_MAX_def)
    moreover have "mload (job_array s ! i) h1 = mload (job_array s ! i) (hist_mem s)"
      if "i < filled s" for i
      using ld1 [of i] that less_le_trans [OF that filled_le] by blast
    ultimately show ?thesis
      using ok1 lv1 heap.update_fetch [OF h1, of p] False by (intro exI [of _ h1]) auto
  qed
qed

lemma registerJob_ok:
  assumes "hist_inv s" "mload p (hist_mem s) = Ok jh" "p \<notin> set (job_array s)"
    and "unat (history_putidx s) < 2 ^ 32 - 1"
    and jid: "jid = (ucast (history_putidx s) :: u16)"
  shows "\<exists>s' h. registerJob p s = Ok (jid, s') \<and> hist_inv s' \<and>
           s' = s\<lparr>history_putidx := history_putidx s + 1, hist_mem := h,
                  job_array := (job_array s)[id_slot jid := p]\<rparr> \<and>
           lookup s' = (\<lambda>k. if k = jid then Some (jh\<lparr>jh_id := jid\<rparr>)
                           else if id_slot k = id_slot jid then None else lookup s k) \<and>
           (\<forall>q. live h q \<longleftrightarrow> live (hist_mem s) q \<and>
              \<not> (10 \<le> unat jid \<and> q = job_array s ! id_slot jid))"
proof -
  let ?i = "id_slot jid"
  obtain h where reg: "registerJob p s = Ok (jid, s\<lparr>history_putidx := history_putidx s + 1,
        hist_mem := h, job_array := (job_array s)[?i := p]\<rparr>)" (is "_ = Ok (_, ?s)")
    and ok: "heap_ok h" and new: "mload p h = Ok (jh\<lparr>jh_id := jid\<rparr>)"
    and old: "\<And>i. i < filled s \<Longrightarrow> i \<noteq> ?i \<Longrightarrow>
        mload (job_array s ! i) h = mload (job_array s ! i) (hist_mem s)"
    and lv: "\<forall>q. live h q \<longleftrightarrow> live (hist_mem s) q \<and>
        \<not> (10 \<le> unat jid \<and> q = job_array s ! ?i)"
    using registerJob_heap [OF assms] by blast
  have inc: "unat (history_putidx s + 1) = Suc (unat (history_putidx s))"
    using assms(4) by (simp add: unat_word_ariths)
  have "unat jid = unat (history_putidx s)" if "unat (history_putidx s) < 10"
    using that by (simp add: jid unat_ucast_id)
  then have slot: "unat (history_putidx s) < 10 \<Longrightarrow> ?i = unat (history_putidx s)"
    by (simp add: id_slot_def JOB_HISTORY_MAX_def)
  have fil: "i < filled ?s \<longleftrightarrow> i < filled s \<or> i = ?i" if "i < 10" for i
    using that inc slot by (auto simp: filled_def JOB_HISTORY_MAX_def less_Suc_eq min_def)
  have at: "job_array ?s ! i = (if i = ?i then p else job_array s ! i)" if "i < 10" for i
    using that hist_inv_len [OF assms(1)] by (simp add: nth_list_update)
  have inv: "hist_inv ?s"
    unfolding hist_inv_def
  proof (intro conjI allI impI)
    show "length (job_array ?s) = JOB_HISTORY_MAX" "heap_ok (hist_mem ?s)"
      using assms(1) ok by (simp_all add: hist_inv_def)
  next
    fix i assume "i < JOB_HISTORY_MAX"
    then have i: "i < 10" by (simp add: JOB_HISTORY_MAX_def)
    show "if i < filled ?s
      then \<exists>jh. mload (job_array ?s ! i) (hist_mem ?s) = Ok jh \<and> unat (jh_id jh) mod JOB_HISTORY_MAX = i
      else job_array ?s ! i = NULL"
      using assms(1) new old [of i] at [OF i] fil [OF i] \<open>i < JOB_HISTORY_MAX\<close>
      by (auto simp: hist_inv_def id_slot_def)
  qed
  have "lookup ?s = (\<lambda>k. if k = jid then Some (jh\<lparr>jh_id := jid\<rparr>)
      else if id_slot k = ?i then None else lookup s k)"
  proof (rule ext)
    fix k
    show "lookup ?s k = (if k = jid then Some (jh\<lparr>jh_id := jid\<rparr>)
        else if id_slot k = ?i then None else lookup s k)"
      using new old [of "id_slot k"] at [of "id_slot k"] fil [of "id_slot k"]
      by (auto simp: lookup_def)
  qed
  with reg inv lv show ?thesis by blast
qed

section \<open>The contract of the handlers\<close>

text \<open>
  What the handlers rely on: a search finds a job if and only if the history has it, at an index
  whose record is the job's, and an update there changes nothing else. \<open>amend\<close> is the shape of every
  handler that updates a record: search, test the index, write.
\<close>

definition amend ::
    "(u16 \<Rightarrow> 's \<Rightarrow> int outcome) \<Rightarrow> (int \<Rightarrow> ('e \<Rightarrow> 'e) \<Rightarrow> 's \<Rightarrow> 's outcome)
      \<Rightarrow> u16 \<Rightarrow> ('e \<Rightarrow> 'e) \<Rightarrow> 's \<Rightarrow> 's outcome" where
  "amend srch upd j f s =
     bnd (srch j s) (\<lambda>i. if 0 \<le> i \<and> i < int JOB_HISTORY_MAX then upd i f s else Ok s)"

locale job_table =
  fixes srch :: "u16 \<Rightarrow> 's \<Rightarrow> int outcome"
    and look :: "int \<Rightarrow> 's \<Rightarrow> 'e outcome"
    and upd :: "int \<Rightarrow> ('e \<Rightarrow> 'e) \<Rightarrow> 's \<Rightarrow> 's outcome"
    and tab :: "'s \<Rightarrow> u16 \<rightharpoonup> 'e"
    and key :: "'e \<Rightarrow> u16"
    and invar :: "'s \<Rightarrow> bool"
  assumes find_none: "invar s \<Longrightarrow> tab s j = None \<Longrightarrow> srch j s = Ok (-1)"
    and find_some: "invar s \<Longrightarrow> tab s j = Some x \<Longrightarrow>
       \<exists>i. srch j s = Ok i \<and> 0 \<le> i \<and> i < int JOB_HISTORY_MAX \<and> look i s = Ok x"
    and upd_some: "invar s \<Longrightarrow> tab s j = Some x \<Longrightarrow> srch j s = Ok i \<Longrightarrow> key (f x) = key x \<Longrightarrow>
       \<exists>s'. upd i f s = Ok s' \<and> invar s' \<and> tab s' = (tab s)(j \<mapsto> f x)"
begin

lemma find_total: "invar s \<Longrightarrow> \<exists>i. srch j s = Ok i"
  using find_none find_some by (cases "tab s j") blast+

lemma find_negative: "invar s \<Longrightarrow> srch j s = Ok i \<Longrightarrow> i < 0 \<longleftrightarrow> tab s j = None"
  using find_none [of s j] find_some [of s j] by (cases "tab s j") auto

lemma amend_ok:
  assumes "invar s" "\<And>x. key (f x) = key x"
  shows "\<exists>s'. amend srch upd j f s = Ok s' \<and> invar s' \<and>
           tab s' = (case tab s j of None \<Rightarrow> tab s | Some x \<Rightarrow> (tab s)(j \<mapsto> f x))"
proof (cases "tab s j")
  case None
  then show ?thesis using find_none [OF assms(1)] assms(1) by (simp add: amend_def)
next
  case (Some x)
  obtain i where "srch j s = Ok i" "0 \<le> i" "i < int JOB_HISTORY_MAX"
    using find_some [OF assms(1) Some] by blast
  with upd_some [OF assms(1) Some this(1), of f] assms(2) Some show ?thesis by (simp add: amend_def)
qed

end

interpretation hist: job_table findJob hist_at hist_set lookup jh_id hist_inv
proof
  show "hist_inv s \<Longrightarrow> lookup s j = None \<Longrightarrow> findJob j s = Ok (-1)" for s j
    by (simp add: findJob_eq)
  show "hist_inv s \<Longrightarrow> lookup s j = Some x \<Longrightarrow>
      \<exists>i. findJob j s = Ok i \<and> 0 \<le> i \<and> i < int JOB_HISTORY_MAX \<and> hist_at i s = Ok x" for s j x
    by (intro exI [of _ "int (id_slot j)"])
      (simp add: findJob_eq hist_at_found JOB_HISTORY_MAX_def less_imp_le)
  show "hist_inv s \<Longrightarrow> lookup s j = Some x \<Longrightarrow> findJob j s = Ok i \<Longrightarrow> jh_id (f x) = jh_id x \<Longrightarrow>
      \<exists>s'. hist_set i f s = Ok s' \<and> hist_inv s' \<and> lookup s' = (lookup s)(j \<mapsto> f x)" for s j x i f
    using hist_set_found [of s j x f] by (auto simp: findJob_eq)
qed

section \<open>The ten most recent jobs\<close>

text \<open>Until the 16-bit id wraps, the history holds exactly the last ten ids given out.\<close>

definition hist_exact :: "server \<Rightarrow> bool" where
  "hist_exact s \<longleftrightarrow>
     (\<forall>k. lookup s k \<noteq> None \<longleftrightarrow>
        unat k < unat (history_putidx s) \<and> unat (history_putidx s) \<le> unat k + JOB_HISTORY_MAX)"

lemma window10: "(k :: nat) < n \<Longrightarrow> n \<le> k + 10 \<Longrightarrow> k mod 10 = n mod 10 \<longleftrightarrow> n = k + 10"
proof -
  assume "k < n" "n \<le> k + 10"
  then obtain d where d: "n = k + d" "0 < d" "d \<le> 10"
    by (metis add_diff_cancel_left' add_diff_inverse_nat diff_le_mono less_imp_not_less zero_less_diff)
  have "k mod 10 = (k + d) mod 10 \<longleftrightarrow> 10 dvd d"
    using mod_eq_dvd_iff_nat [of k "k + d" 10] by auto
  then show "k mod 10 = n mod 10 \<longleftrightarrow> n = k + 10" using d by (auto dest: dvd_imp_le)
qed

lemma registerJob_exact:
  assumes "hist_exact s" "unat (history_putidx s) < 65536"
    and jid: "jid = (ucast (history_putidx s) :: u16)"
    and s': "history_putidx s' = history_putidx s + 1"
      "lookup s' = (\<lambda>k. if k = jid then Some x else if id_slot k = id_slot jid then None else lookup s k)"
  shows "hist_exact s'"
  unfolding hist_exact_def
proof (intro allI)
  fix k
  let ?n = "unat (history_putidx s)"
  have inc: "unat (history_putidx s') = Suc ?n"
    using assms(2) by (simp add: s'(1) unat_word_ariths)
  have j: "unat jid = ?n" using assms(2) by (simp add: jid unat_ucast_id)
  have keq: "k = jid \<longleftrightarrow> unat k = ?n" by (simp add: word_unat_eq_iff j)
  have "lookup s' k \<noteq> None \<longleftrightarrow> unat k = ?n \<or>
      (unat k mod 10 \<noteq> ?n mod 10 \<and> unat k < ?n \<and> ?n \<le> unat k + 10)"
    using assms(1) by (auto simp: s'(2) keq j id_slot_def hist_exact_def JOB_HISTORY_MAX_def)
  also have "\<dots> \<longleftrightarrow> unat k < Suc ?n \<and> Suc ?n \<le> unat k + 10"
    using window10 [of "unat k" ?n] by (cases "unat k < ?n \<and> ?n \<le> unat k + 10") auto
  finally show "lookup s' k \<noteq> None \<longleftrightarrow> unat k < unat (history_putidx s') \<and>
      unat (history_putidx s') \<le> unat k + JOB_HISTORY_MAX"
    by (simp add: inc JOB_HISTORY_MAX_def)
qed

section \<open>State reports\<close>

definition report_states :: "u8 list" where
  "report_states = map JOB_STATE_u8 [STATE_FINISHED, STATE_SIGNALED, STATE_ERROR, STATE_RUN]"

definition reported :: "u8 \<Rightarrow> u8 \<Rightarrow> int \<Rightarrow> JobHistory_t \<Rightarrow> JobHistory_t" where
  "reported st ex now jh =
     (let jh = jh\<lparr>jh_state := st, jh_exit_status := ex\<rparr>
      in if st = JOB_STATE_u8 STATE_RUN then jh\<lparr>jh_startProcTime := now\<rparr>
         else jh\<lparr>jh_endProcTime := now\<rparr>)"

lemma changeStateJob_time_cases:
  "changeStateJob_time st now (jh\<lparr>jh_state := st, jh_exit_status := ex\<rparr>) =
     (if st \<in> set report_states then Ok (reported st ex now jh) else Fail AssertFail)"
proof (cases "JOB_STATE_of st")
  case None
  then have "st \<notin> set report_states"
    by (auto simp: report_states_def simp del: JOB_STATE_u8.simps)
  with None show ?thesis by (simp add: changeStateJob_time_def)
next
  case (Some x)
  then have "st = JOB_STATE_u8 x" using JOB_STATE_u8_of by simp
  with Some show ?thesis
    by (cases x) (simp_all add: changeStateJob_time_def report_states_def reported_def Let_def
        del: JOB_STATE_u8.simps)
qed

lemma changeStateJob_amend:
  assumes "hist_inv s" "getJobState_State pkg \<in> set report_states"
  shows "changeStateJob e pkg now s =
     amend findJob hist_set (getJobState_ID e pkg)
       (reported (getJobState_State pkg) (getJobState_ExitValue pkg) now) s"
proof -
  obtain i where i: "findJob (getJobState_ID e pkg) s = Ok i"
    using hist.find_total [OF assms(1)] by blast
  show ?thesis
    using assms(2)
    by (cases "hist_at i s")
      (auto simp: changeStateJob_def amend_def i Let_def changeStateJob_time_cases hist_set_def)
qed

section \<open>Properties\<close>

text \<open>Example data: a server whose ten slots are filled, after \<open>n\<close> jobs.\<close>

definition ex_hist :: "u16 \<Rightarrow> JobHistory_t" where
  "ex_hist i = \<lparr>jh_id = i, jh_ipaddr = 0, jh_state = 0, jh_exit_status = 7, jh_queue_idx = 0,
     jh_submitTime = 100, jh_startProcTime = 0, jh_endProcTime = 0\<rparr>"

definition ex_server :: "u32 \<Rightarrow> server" where
  "ex_server n = \<lparr>job_array = map At [0..<10], history_putidx = n, queue = [], queue2put = 0,
     queue2get = 0, job_mem = empty_heap,
     hist_mem = \<lparr>cells = (\<lambda>a. if a < 11 then Some (ex_hist (65520 + of_nat a)) else None), brk = 11\<rparr>\<rparr>"

lemma less_10_cases:
  "(i :: nat) < 10 \<Longrightarrow> i \<in> {0, 1, 2, 3, 4, 5, 6, 7, 8, 9}"
  by auto

lemma ex_server_entry:
  "i < 10 \<Longrightarrow> mload (job_array (ex_server n) ! i) (hist_mem (ex_server n)) = Ok (ex_hist (65520 + of_nat i))"
  by (simp add: ex_server_def mload_def)

lemma ex_server_inv:
  assumes "10 \<le> unat n"
  shows "hist_inv (ex_server n)"
proof -
  have "filled (ex_server n) = 10" using assms by (simp add: filled_def ex_server_def JOB_HISTORY_MAX_def)
  moreover have "unat (65520 + of_nat i :: u16) mod 10 = i" if "i < 10" for i
    using less_10_cases [OF that] by auto
  moreover have "length (job_array (ex_server n)) = 10" "heap_ok (hist_mem (ex_server n))"
    by (simp_all add: ex_server_def heap_ok_def)
  ultimately show ?thesis
    by (simp add: hist_inv_def JOB_HISTORY_MAX_def ex_server_entry) (simp add: ex_hist_def)
qed

text \<open>C24: the linear search of \<open>findJob\<close> never faults and is a direct access: it returns the slot the id
  selects when the record there has that id, and -1 otherwise.\<close>

theorem findJob_direct:
  assumes "hist_inv s"
  shows "findJob j s = Ok (if lookup s j \<noteq> None then int (unat j mod JOB_HISTORY_MAX) else -1) \<and>
         (\<forall>jh. lookup s j = Some jh \<longrightarrow>
            hist_at (int (unat j mod JOB_HISTORY_MAX)) s = Ok jh \<and> jh_id jh = j)"
  using assms hist_at_found [of s j] lookup_id [of s j] by (auto simp: findJob_eq id_slot_def)

theorem findJob_direct_witness:
  "findJob 65523 (ex_server 65536) = Ok 3 \<and> findJob 3 (ex_server 65536) = Ok (-1)"
proof -
  have inv: "hist_inv (ex_server 65536)" by (rule ex_server_inv) simp
  have "lookup (ex_server 65536) 65523 \<noteq> None" "lookup (ex_server 65536) 3 = None"
    by (simp_all add: lookup_def id_slot_def filled_def JOB_HISTORY_MAX_def ex_server_def mload_def
        ex_hist_def)
  then show ?thesis
    using findJob_direct [OF inv, of 65523] findJob_direct [OF inv, of 3]
    by (simp add: JOB_HISTORY_MAX_def)
qed

text \<open>C25: a state report from an execution server. For a job the history no longer has, nothing
  changes; for one it has, a \<open>RUN\<close>, \<open>FINISHED\<close>, \<open>SIGNALED\<close> or \<open>ERROR\<close> report sets state, exit status and
  the start or end time of exactly that record; any other state byte ends the server process at
  \<open>assert(0)\<close>.\<close>

theorem changeStateJob_cases:
  assumes "hist_inv s"
  shows "case lookup s (getJobState_ID e pkg) of
           None \<Rightarrow> changeStateJob e pkg now s = Ok s
         | Some jh \<Rightarrow>
             if getJobState_State pkg \<in> set report_states
             then \<exists>s'. changeStateJob e pkg now s = Ok s' \<and> hist_inv s' \<and>
                    lookup s' = (lookup s)(getJobState_ID e pkg \<mapsto>
                      reported (getJobState_State pkg) (getJobState_ExitValue pkg) now jh)
             else changeStateJob e pkg now s = Fail AssertFail"
proof (cases "lookup s (getJobState_ID e pkg)")
  case None
  then show ?thesis using hist.find_none [OF assms None] by (simp add: changeStateJob_def Let_def)
next
  case (Some jh)
  obtain i where i: "findJob (getJobState_ID e pkg) s = Ok i" "0 \<le> i" "i < int JOB_HISTORY_MAX"
    "hist_at i s = Ok jh"
    using hist.find_some [OF assms Some] by blast
  have "jh_id (reported st ex now x) = jh_id x" for st ex x by (simp add: reported_def Let_def)
  note am = hist.amend_ok [OF assms, of "reported (getJobState_State pkg)
      (getJobState_ExitValue pkg) now", OF this, of "getJobState_ID e pkg"]
  show ?thesis
    using am changeStateJob_amend [OF assms, of pkg e now] Some i
    by (auto simp: changeStateJob_def Let_def changeStateJob_time_cases)
qed

theorem changeStateJob_cases_witness:
  "\<exists>s'. changeStateJob LE (setJobDone LE (\<lambda>_. 0) 65523 1) 200 (ex_server 65536) = Ok s' \<and>
      lookup s' 65523 =
        Some ((ex_hist 65523)\<lparr>jh_state := 2, jh_exit_status := 1, jh_endProcTime := 200\<rparr>)"
proof -
  have inv: "hist_inv (ex_server 65536)" by (rule ex_server_inv) simp
  have "lookup (ex_server 65536) 65523 = Some (ex_hist 65523)"
    by (simp add: lookup_def id_slot_def filled_def JOB_HISTORY_MAX_def ex_server_def mload_def
        ex_hist_def)
  then show ?thesis
    using changeStateJob_cases [OF inv, of LE "setJobDone LE (\<lambda>_. 0) 65523 1" 200]
    by (auto simp: msg_defs layout const_defs mem_simps Let_def report_states_def reported_def)
qed

text \<open>C40: a 16-bit id leaks memory where it wraps. While the counter is between 65536 and 65545 the id
  is below ten again, so recording a job overwrites the slot of an old record without freeing it.\<close>

theorem history_wrap_leaks:
  assumes "hist_inv s" "mload p (hist_mem s) = Ok jh" "p \<notin> set (job_array s)"
    and "65536 \<le> unat (history_putidx s)" "unat (history_putidx s) < 65546"
  shows "\<exists>jid s'. registerJob p s = Ok (jid, s') \<and>
           live (hist_mem s') (job_array s ! (unat jid mod JOB_HISTORY_MAX)) \<and>
           job_array s ! (unat jid mod JOB_HISTORY_MAX) \<notin> set (job_array s')"
proof -
  define jid where "jid = (ucast (history_putidx s) :: u16)"
  let ?i = "id_slot jid" and ?old = "job_array s ! id_slot jid"
  have fl: "filled s = 10" using assms(4) by (simp add: filled_def JOB_HISTORY_MAX_def)
  have small: "unat jid < 10"
    using assms(4,5) by (auto simp: jid_def unat_ucast_id mod_if)
  have "unat (history_putidx s) < 2 ^ 32 - 1" using assms(5) by simp
  from registerJob_ok [OF assms(1-3) this jid_def] obtain s' h where
    s': "registerJob p s = Ok (jid, s')" "hist_mem s' = h"
    "job_array s' = (job_array s)[?i := p]"
    "\<forall>q. live h q \<longleftrightarrow> live (hist_mem s) q \<and> \<not> (10 \<le> unat jid \<and> q = ?old)"
    by auto
  have "live (hist_mem s') ?old"
    using s' small hist_inv_live [OF assms(1), of ?i] fl by simp
  moreover have "?old \<notin> set (job_array s')"
  proof
    assume "?old \<in> set (job_array s')"
    then obtain k where k: "k < 10" "job_array s' ! k = ?old"
      using hist_inv_len [OF assms(1)] s'(3) by (auto simp: in_set_conv_nth)
    then show False
      using hist_inv_inj [OF assms(1), of k ?i] fl assms(3) hist_inv_len [OF assms(1)] s'(3)
      by (metis id_slot_less nth_list_update nth_mem)
  qed
  ultimately show ?thesis using s'(1) by (auto simp: id_slot_def)
qed

theorem history_wrap_leaks_witness:
  "\<exists>jid s'. registerJob (At 10) (ex_server 65536) = Ok (jid, s') \<and>
      live (hist_mem s') (job_array (ex_server 65536) ! (unat jid mod JOB_HISTORY_MAX)) \<and>
      job_array (ex_server 65536) ! (unat jid mod JOB_HISTORY_MAX) \<notin> set (job_array s')"
proof (rule history_wrap_leaks)
  show "hist_inv (ex_server 65536)" by (rule ex_server_inv) simp
  show "mload (At 10) (hist_mem (ex_server 65536)) = Ok (ex_hist 65530)"
    by (simp add: ex_server_def mload_def)
qed (auto simp: ex_server_def)

end
