(* ===== verification/Packets.thy ===== *)
theory Packets
  imports Proto
begin

text \<open>
  What the messages of \<open>Proto\<close> mean. A \<open>packet\<close> is the abstract content of a message, one
  constructor per setter; \<open>encode\<close> builds the message with that setter and \<open>decode\<close> reads it
  back with the getters the receivers call, by the type byte. Ports and addresses are given as
  numbers: the code holds them in network byte order (\<open>sin_port\<close>, \<open>s_addr\<close>) from end to end.
\<close>

section \<open>Abstract packets\<close>

datatype packet =
    SubNoInter "u8 list" "u8 list"
  | SubInteractive "u8 list" "u8 list" u32 u16
  | SubResp u16
  | JobStateReq u16
  | JobStateResp u16 u8 u8
  | QueStateReq u8
  | QueStateResp u8 u8
  | Unsub u16
  | UnsubResp u16
  | SendJobNoInter "u8 list" "u8 list" u16
  | SendJobInter "u8 list" "u8 list" u32 u16 u16
  | ChExecSer
  | ChExecSerAck
  | JobReq
  | JobDone u16 u8
  | JobRun u16
  | JobSig u16 u8
  | ClientClosed
  | ServerClosed
  | BadParams

primrec encode :: "endian \<Rightarrow> packet \<Rightarrow> mem \<Rightarrow> mem" where
  "encode e (SubNoInter f d) m = setFileExecNoInter_CLIENT e m f d 0"
| "encode e (SubInteractive f d ip port) m =
     setFileExecInter_CLIENT e m f d (htonl e ip) (htons e port) 0"
| "encode e (SubResp j) m = setJobID e m \<lparr>job_id = j\<rparr>"
| "encode e (JobStateReq j) m = setJobState_CLIENT e m \<lparr>job_id = j\<rparr>"
| "encode e (JobStateResp j st ex) m =
     setJobState e m \<lparr>js_state = st, js_jobid = \<lparr>job_id = j\<rparr>, js_exit_value = ex\<rparr>"
| "encode e (QueStateReq q) m = setQueueState_CLIENT e m \<lparr>queue_id = q\<rparr>"
| "encode e (QueStateResp q st) m =
     setQueueState e m \<lparr>qs_state = st, qs_queueid = \<lparr>queue_id = q\<rparr>\<rparr>"
| "encode e (Unsub j) m = setUnsubmit_CLIENT e m \<lparr>job_id = j\<rparr>"
| "encode e (UnsubResp j) m = setUnsubmit e m j"
| "encode e (SendJobNoInter f d j) m = setFileExecNoInter e m f d j"
| "encode e (SendJobInter f d ip port j) m =
     setFileExecInter e m f d (htonl e ip) (htons e port) j"
| "encode e ChExecSer m = setCheckExecServer e m"
| "encode e ChExecSerAck m = setCheckExecServerAck e m"
| "encode e JobReq m = setJobReq e m"
| "encode e (JobDone j st) m = setJobDone e m j st"
| "encode e (JobRun j) m = setJobRun e m j"
| "encode e (JobSig j sig) m = setJobSignaled e m j sig"
| "encode e ClientClosed m = setClosedConnection e m"
| "encode e ServerClosed m = setClosedConnection_ExecServer e m"
| "encode e BadParams m = setBadParams e m"

fun decode_as :: "endian \<Rightarrow> mem \<Rightarrow> Type \<Rightarrow> packet" where
  "decode_as e m TYPE_SUB_NO_INTER =
     SubNoInter (cstr (fe_exec_file (getExec_fileExec m))) (cstr (fe_working_dir (getExec_fileExec m)))"
| "decode_as e m TYPE_SUB_INTERACTIVE =
     SubInteractive (cstr (fe_exec_file (getExecAddr_fileExec m)))
       (cstr (fe_working_dir (getExecAddr_fileExec m)))
       (ntohl e (getExecAddr_ipadd e m)) (ntohs e (getExecAddr_port e m))"
| "decode_as e m TYPE_SUB_RESP = SubResp (getJobID e m)"
| "decode_as e m TYPE_JOBSTATE = JobStateReq (getJobID e m)"
| "decode_as e m TYPE_JOBSTATE_RESP =
     JobStateResp (getJobState_ID e m) (getJobState_State m) (getJobState_ExitValue m)"
| "decode_as e m TYPE_QUESTATE = QueStateReq (queue_id (getQueueID m))"
| "decode_as e m TYPE_QUESTATE_RESP = QueStateResp (getQueueState_ID m) (getQueueState_State m)"
| "decode_as e m TYPE_UNSUB = Unsub (getJobID e m)"
| "decode_as e m TYPE_UNSUB_RESP = UnsubResp (getJobID e m)"
| "decode_as e m TYPE_SENDJOB_NOINTER =
     SendJobNoInter (cstr (getExec_fileExec_execfile m)) (cstr (getExec_fileExec_wdir m))
       (getJobID_NoIter e m)"
| "decode_as e m TYPE_SENDJOB_INTER =
     SendJobInter (cstr (getExecAddr_fileExec_execfile m)) (cstr (getExecAddr_fileExec_wdir m))
       (ntohl e (getExecAddr_ipadd e m)) (ntohs e (getExecAddr_port e m)) (getJobID_Iter e m)"
| "decode_as e m TYPE_CH_EXEC_SER = ChExecSer"
| "decode_as e m TYPE_CH_EXEC_SER_ACK = ChExecSerAck"
| "decode_as e m TYPE_JOB_REQ = JobReq"
| "decode_as e m TYPE_JOB_DONE = JobDone (getJobState_ID e m) (getJobState_ExitValue m)"
| "decode_as e m TYPE_JOB_RUN = JobRun (getJobState_ID e m)"
| "decode_as e m TYPE_JOB_SIG = JobSig (getJobState_ID e m) (getJobState_ExitValue m)"
| "decode_as e m TYPE_CLIENT_CLOSED = ClientClosed"
| "decode_as e m TYPE_SERVER_CLOSED = ServerClosed"
| "decode_as e m TYPE_BAD_PARAMS = BadParams"

definition decode :: "endian \<Rightarrow> mem \<Rightarrow> packet option" where
  "decode e m = map_option (decode_as e m) (Type_of (getType m))"

text \<open>The type and the size a packet's header carries.\<close>

primrec packet_type :: "packet \<Rightarrow> Type" where
  "packet_type (SubNoInter _ _) = TYPE_SUB_NO_INTER"
| "packet_type (SubInteractive _ _ _ _) = TYPE_SUB_INTERACTIVE"
| "packet_type (SubResp _) = TYPE_SUB_RESP"
| "packet_type (JobStateReq _) = TYPE_JOBSTATE"
| "packet_type (JobStateResp _ _ _) = TYPE_JOBSTATE_RESP"
| "packet_type (QueStateReq _) = TYPE_QUESTATE"
| "packet_type (QueStateResp _ _) = TYPE_QUESTATE_RESP"
| "packet_type (Unsub _) = TYPE_UNSUB"
| "packet_type (UnsubResp _) = TYPE_UNSUB_RESP"
| "packet_type (SendJobNoInter _ _ _) = TYPE_SENDJOB_NOINTER"
| "packet_type (SendJobInter _ _ _ _ _) = TYPE_SENDJOB_INTER"
| "packet_type ChExecSer = TYPE_CH_EXEC_SER"
| "packet_type ChExecSerAck = TYPE_CH_EXEC_SER_ACK"
| "packet_type JobReq = TYPE_JOB_REQ"
| "packet_type (JobDone _ _) = TYPE_JOB_DONE"
| "packet_type (JobRun _) = TYPE_JOB_RUN"
| "packet_type (JobSig _ _) = TYPE_JOB_SIG"
| "packet_type ClientClosed = TYPE_CLIENT_CLOSED"
| "packet_type ServerClosed = TYPE_SERVER_CLOSED"
| "packet_type BadParams = TYPE_BAD_PARAMS"

fun packet_size :: "packet \<Rightarrow> nat" where
  "packet_size (SubNoInter _ _) = sizeof_Header + sizeof_Job_Exec"
| "packet_size (SubInteractive _ _ _ _) = sizeof_Header + sizeof_Job_Exec_Addr"
| "packet_size (SubResp _) = sizeof_Header + sizeof_JobID"
| "packet_size (JobStateReq _) = sizeof_Header + sizeof_JobID"
| "packet_size (JobStateResp _ _ _) = sizeof_Header + sizeof_Job_State"
| "packet_size (QueStateReq _) = sizeof_Header + sizeof_QueueID"
| "packet_size (QueStateResp _ _) = sizeof_Header + sizeof_Queue_State"
| "packet_size (Unsub _) = sizeof_Header + sizeof_JobID"
| "packet_size (UnsubResp _) = sizeof_Header + sizeof_JobID"
| "packet_size (SendJobNoInter _ _ _) = sizeof_Header + sizeof_Job_Exec"
| "packet_size (SendJobInter _ _ _ _ _) = sizeof_Header + sizeof_Job_Exec_Addr"
| "packet_size (JobDone _ _) = sizeof_Header + sizeof_Job_State"
| "packet_size (JobRun _) = sizeof_Header + sizeof_Job_State"
| "packet_size (JobSig _ _) = sizeof_Header + sizeof_Job_State"
| "packet_size _ = sizeof_Header"

text \<open>A path fits its field: no terminator inside, at most \<open>SZ_PATH\<close> bytes.\<close>

definition path_ok :: "u8 list \<Rightarrow> bool" where
  "path_ok p \<longleftrightarrow> 0 \<notin> set p \<and> length p \<le> SZ_PATH"

fun packet_ok :: "packet \<Rightarrow> bool" where
  "packet_ok (SubNoInter f d) = (path_ok f \<and> path_ok d)"
| "packet_ok (SubInteractive f d _ _) = (path_ok f \<and> path_ok d)"
| "packet_ok (SendJobNoInter f d _) = (path_ok f \<and> path_ok d)"
| "packet_ok (SendJobInter f d _ _ _) = (path_ok f \<and> path_ok d)"
| "packet_ok _ = True"

text \<open>The bytes \<open>sendMsg\<close> puts on the wire for a message: as many as its size field says.\<close>

definition wire :: "endian \<Rightarrow> mem \<Rightarrow> u8 list" where
  "wire e m = rd m 0 (unat (getSize8 e m))"

section \<open>Lemmas\<close>

lemma path_ok_copy: "path_ok p \<Longrightarrow> cstr (strncpy_bytes 256 p) = p"
  by (auto simp: cstr_strncpy path_ok_def const_defs takeWhile_take_short)

lemmas eval_msg = msg_defs layout const_defs mem_simps

lemma getType_encode [simp]: "getType (encode e p m) = Type_u8 (packet_type p)"
  by (cases p) (simp_all add: eval_msg Let_def del: Type_u8.simps)

lemma getSize8_encode [simp]: "getSize8 e' (encode e p m) = of_nat (packet_size p)"
  by (cases p) (simp_all add: eval_msg Let_def del: Type_u8.simps)

lemma getVersion_encode [simp]: "getVersion e' (encode e p m) = VER_1"
  by (cases p) (simp_all add: eval_msg Let_def del: Type_u8.simps)

lemma packet_size_bounds: "sizeof_Header \<le> packet_size p" "packet_size p \<le> sizeof_Msg"
  by (cases p; simp add: layout const_defs)+

lemma unat_packet_size: "unat (of_nat (packet_size p) :: u16) = packet_size p"
proof -
  have "packet_size p < 2 ^ 16"
    using packet_size_bounds(2) [of p] by (simp add: sizeof_Msg_eq)
  then show ?thesis by (simp add: unat_of_nat)
qed

lemma ucast_packet_size: "ucast (of_nat (packet_size p) :: u16) = (of_nat (packet_size p) :: u64)"
  by (metis of_nat_unat unat_packet_size)

lemma wire_encode: "wire e' (encode e p m) = rd (encode e p m) 0 (packet_size p)"
  by (simp add: wire_def unat_packet_size)

lemma decode_encode_aux:
  "packet_ok p \<Longrightarrow> decode_as e' (encode e p m) (packet_type p) = p"
  by (cases p) (simp_all add: eval_msg Let_def path_ok_copy del: Type_u8.simps)

lemma encode_canonical:
  "k < packet_size p \<Longrightarrow> encode e p m k = encode e' p m' k"
  by (cases p) (auto simp: eval_msg Let_def wr_def simp del: Type_u8.simps, arith+)

lemma encode_beyond: "packet_size p \<le> k \<Longrightarrow> encode e p m k = m k"
  by (cases p) (simp_all add: eval_msg Let_def del: Type_u8.simps)

text \<open>Receiving the wire bytes of a packet into a buffer builds the message in that buffer.\<close>

lemma wr_wire_encode: "wr 0 (wire e (encode e p m)) buf = encode e' p buf"
proof (rule ext)
  fix k
  show "wr 0 (wire e (encode e p m)) buf k = encode e' p buf k"
    by (cases "k < packet_size p")
      (simp_all add: wire_encode wr_def encode_canonical [of k p e m e' buf] encode_beyond)
qed

text \<open>What the receivers' getters return on each packet.\<close>

lemma Type_of_encode: "Type_of (getType (encode e p m)) = Some (packet_type p)"
  by (simp del: Type_u8.simps)

lemma get_request:
  "getJobID e' (encode e (JobStateReq j) m) = j"
  "getJobID e' (encode e (Unsub j) m) = j"
  "getQueueID (encode e (QueStateReq q) m) = \<lparr>queue_id = q\<rparr>"
  by (simp_all add: eval_msg Let_def del: Type_u8.simps)

lemma get_answer:
  "getJobID e' (encode e (SubResp j) m) = j"
  "getJobID e' (encode e (UnsubResp j) m) = j"
  "getJobState_ID e' (encode e (JobStateResp j st ex) m) = j"
  "getJobState_State (encode e (JobStateResp j st ex) m) = st"
  "getJobState_ExitValue (encode e (JobStateResp j st ex) m) = ex"
  "getQueueState_ID (encode e (QueStateResp q st) m) = q"
  "getQueueState_State (encode e (QueStateResp q st) m) = st"
  by (simp_all add: eval_msg Let_def del: Type_u8.simps)

lemma get_report:
  "getJobState_ID e' (encode e (JobRun j) m) = j"
  "getJobState_ID e' (encode e (JobDone j x) m) = j"
  "getJobState_ID e' (encode e (JobSig j x) m) = j"
  "getJobState_State (encode e (JobRun j) m) = JOB_STATE_u8 STATE_RUN"
  "getJobState_State (encode e (JobDone j x) m) =
     JOB_STATE_u8 (if x = 40 \<or> x = 41 then STATE_ERROR else STATE_FINISHED)"
  "getJobState_State (encode e (JobSig j x) m) = JOB_STATE_u8 STATE_SIGNALED"
  "getJobState_ExitValue (encode e (JobRun j) m) = 0"
  "getJobState_ExitValue (encode e (JobDone j x) m) = x"
  "getJobState_ExitValue (encode e (JobSig j x) m) = x"
  by (simp_all add: eval_msg Let_def del: Type_u8.simps JOB_STATE_u8.simps)

lemma get_submission:
  "getExec_fileExec (encode e (SubNoInter f d) m) =
     \<lparr>fe_exec_file = strncpy_bytes SZ_PATH f, fe_working_dir = strncpy_bytes SZ_PATH d\<rparr>"
  "getExecAddr_fileExec (encode e (SubInteractive f d ip port) m) =
     \<lparr>fe_exec_file = strncpy_bytes SZ_PATH f, fe_working_dir = strncpy_bytes SZ_PATH d\<rparr>"
  "getExecAddr_ipadd e' (encode e (SubInteractive f d ip port) m) = htonl e' ip"
  "getExecAddr_port e' (encode e (SubInteractive f d ip port) m) = htons e' port"
proof -
  have "ntohl e' (getExecAddr_ipadd e' (encode e (SubInteractive f d ip port) m)) = ip"
    "ntohs e' (getExecAddr_port e' (encode e (SubInteractive f d ip port) m)) = port"
    by (simp_all add: eval_msg Let_def del: Type_u8.simps)
  then show "getExecAddr_ipadd e' (encode e (SubInteractive f d ip port) m) = htonl e' ip"
    "getExecAddr_port e' (encode e (SubInteractive f d ip port) m) = htons e' port"
    by (metis htonl_ntohl, metis htons_ntohs)
qed (simp_all add: eval_msg Let_def del: Type_u8.simps)

lemma get_job:
  "getJobID_NoIter e' (encode e (SendJobNoInter f d j) m) = j"
  "getJobID_Iter e' (encode e (SendJobInter f d ip port j) m) = j"
  "getExec_fileExec_execfile (encode e (SendJobNoInter f d j) m) = strncpy_bytes SZ_PATH f"
  "getExecAddr_fileExec_execfile (encode e (SendJobInter f d ip port j) m) = strncpy_bytes SZ_PATH f"
  "getExec_fileExec_wdir (encode e (SendJobNoInter f d j) m) = strncpy_bytes SZ_PATH d"
  "getExecAddr_fileExec_wdir (encode e (SendJobInter f d ip port j) m) = strncpy_bytes SZ_PATH d"
  by (simp_all add: eval_msg Let_def del: Type_u8.simps)

lemma get_job_addr:
  "getExecAddr_ipadd e' (encode e (SendJobInter f d ip port j) m) = htonl e' ip"
  "getExecAddr_port e' (encode e (SendJobInter f d ip port j) m) = htons e' port"
proof -
  have "ntohl e' (getExecAddr_ipadd e' (encode e (SendJobInter f d ip port j) m)) = ip"
    "ntohs e' (getExecAddr_port e' (encode e (SendJobInter f d ip port j) m)) = port"
    by (simp_all add: eval_msg Let_def del: Type_u8.simps)
  then show "getExecAddr_ipadd e' (encode e (SendJobInter f d ip port j) m) = htonl e' ip"
    "getExecAddr_port e' (encode e (SendJobInter f d ip port j) m) = htons e' port"
    by (metis htonl_ntohl, metis htons_ntohs)
qed

section \<open>Properties\<close>

text \<open>C15: every message survives the trip between hosts of any two byte orders: what the receiver
  reads through its getters is what the sender gave its setter, whatever was in the sender's
  buffer before.\<close>

theorem decode_encode:
  assumes "packet_ok p"
  shows "decode e' (encode e p m) = Some p"
  using assms by (simp add: decode_def decode_encode_aux)

theorem decode_encode_witness:
  "packet_ok (SendJobInter [108, 115] [47] 0x7F000001 4000 7) \<and>
   decode BE (encode LE (SendJobInter [108, 115] [47] 0x7F000001 4000 7) (\<lambda>_. 0xAA)) =
     Some (SendJobInter [108, 115] [47] 0x7F000001 4000 7)"
proof -
  have ok: "packet_ok (SendJobInter [108, 115] [47] 0x7F000001 4000 7)"
    by (simp add: path_ok_def const_defs)
  show ?thesis using ok decode_encode [OF ok, of BE LE "\<lambda>_. 0xAA"] by blast
qed

text \<open>The bytes put on the wire are a function of the abstract packet alone. They depend
  neither on the host's byte order nor on the uninitialised stack memory the \<open>Msg\<close> object had
  before, so no message leaks stack contents; and their number is within the object.\<close>

theorem wire_canonical:
  "wire e (encode e p m) = wire e' (encode e' p m') \<and>
   length (wire e (encode e p m)) = packet_size p \<and>
   sizeof_Header \<le> packet_size p \<and> packet_size p \<le> sizeof_Msg"
  by (simp add: wire_encode rd_eq_iff encode_canonical [of _ p e m e' m'] packet_size_bounds)

text \<open>The command line a client submits arrives as a terminated C string exactly when it is
  shorter than the field; a line of 256 bytes or more is cut and loses its terminator.\<close>

theorem exec_file_terminated_iff:
  assumes "0 \<notin> set f"
  shows "(0 \<in> set (fe_exec_file (getExec_fileExec (setFileExecNoInter_CLIENT e m f d j)))
           \<longleftrightarrow> length f < SZ_PATH) \<and>
         cstr (fe_exec_file (getExec_fileExec (setFileExecNoInter_CLIENT e m f d j))) =
           take SZ_PATH f"
  using assms
  by (simp add: eval_msg Let_def strncpy_terminated_iff cstr_strncpy takeWhile_take_short
      del: Type_u8.simps)

theorem exec_file_terminated_iff_witness:
  "0 \<notin> set (replicate 256 (65 :: u8)) \<and>
   0 \<notin> set (fe_exec_file (getExec_fileExec
           (setFileExecNoInter_CLIENT LE (\<lambda>_. 0) (replicate 256 65) [47] 0)))"
proof -
  have h: "0 \<notin> set (replicate 256 (65 :: u8))" by simp
  show ?thesis
    using h exec_file_terminated_iff [OF h, of LE "\<lambda>_. 0" "[47]" 0] by (simp add: const_defs)
qed

end
