(* ===== verification/Transport.thy ===== *)
theory Transport
  imports Packets
begin

text \<open>
  \<open>sendMsg\<close> and \<open>recvMsg\<close> of \<open>PROTO_DIST_QUEUE.c\<close> over a model of a stream socket. The socket
  is scripted: each call of \<open>send\<close>, \<open>recv\<close> or \<open>select\<close> consumes one event saying what the
  operating system does, so a theorem about every script is a theorem about every way the system
  can cut, delay, interrupt or fail the transfer. A call with no event left waits.
\<close>

section \<open>Stream sockets\<close>

datatype io_ev =
    IoN nat    \<comment> \<open>transfers at most \<open>Suc n\<close> bytes, at least one\<close>
  | IoIntr     \<comment> \<open>returns -1 with \<open>errno == EINTR\<close>\<close>
  | IoErr      \<comment> \<open>returns -1 with another \<open>errno\<close>\<close>
  | IoEnd      \<comment> \<open>returns 0\<close>

datatype sel_ev =
    SelErr           \<comment> \<open>\<open>select\<close> returns -1\<close>
  | SelReadable nat  \<comment> \<open>the socket becomes readable after that many seconds\<close>
  | SelNever         \<comment> \<open>the socket does not become readable\<close>

record sock =
  rx_ev :: "io_ev list"
  rx_bytes :: "u8 list"
  tx_ev :: "io_ev list"
  tx_bytes :: "u8 list"
  sel_ev :: "sel_ev list"

section \<open>The transfer loops\<close>

text \<open>
  \<open>toSend\<close> and \<open>toRecv\<close> are \<open>size_t\<close>, \<open>ptr\<close> is an offset from the first byte of the message and
  may leave the object. An interrupted call returns -1, passes the test of the loop and is
  subtracted like a byte count.
\<close>

fun send_loop ::
    "mem \<Rightarrow> u64 \<Rightarrow> int \<Rightarrow> io_ev list \<Rightarrow> u8 list \<Rightarrow> (int \<times> io_ev list \<times> u8 list) outcome" where
  "send_loop msg toSend ptr [] out = (if toSend = 0 then Ok (1, [], out) else Wait)"
| "send_loop msg toSend ptr (ev # evs) out =
     (if toSend = 0 then Ok (1, ev # evs, out)
      else case ev of
        IoErr \<Rightarrow> Ok (-1, evs, out)
      | IoEnd \<Rightarrow> Ok (0, evs, out)
      | IoIntr \<Rightarrow> send_loop msg (toSend - (-1)) (ptr + (-1)) evs out
      | IoN k \<Rightarrow>
          (let sent = min (Suc k) (unat toSend)
           in if ptr < 0 \<or> ptr + int sent > int sizeof_Msg then Fail OutOfBounds
              else send_loop msg (toSend - of_nat sent) (ptr + int sent) evs
                     (out @ rd msg (nat ptr) sent)))"

definition sendMsg :: "endian \<Rightarrow> sock \<Rightarrow> mem \<Rightarrow> (int \<times> sock) outcome" where
  "sendMsg e sk msg =
     bnd (send_loop msg (ucast (ntohs e (ld16 e msg o_sz8))) 0 (tx_ev sk) (tx_bytes sk))
       (\<lambda>(r, evs, out). Ok (r, sk\<lparr>tx_ev := evs, tx_bytes := out\<rparr>))"

text \<open>The step at the end of the loop body: the switch from the header to the payload.\<close>

definition recv_switch :: "endian \<Rightarrow> mem \<Rightarrow> u64 \<Rightarrow> int \<Rightarrow> bool \<Rightarrow> u64 \<times> int \<times> bool" where
  "recv_switch e msg toRecv ptr headerRecvd =
     (if toRecv = 0 \<and> \<not> headerRecvd
      then (ucast (ntohs e (ld16 e msg o_sz8)) - of_nat sizeof_Header, int o_payload, True)
      else (toRecv, ptr, headerRecvd))"

fun recv_loop ::
    "endian \<Rightarrow> mem \<Rightarrow> u64 \<Rightarrow> int \<Rightarrow> bool \<Rightarrow> io_ev list \<Rightarrow> u8 list
      \<Rightarrow> (int \<times> mem \<times> io_ev list \<times> u8 list) outcome" where
  "recv_loop e msg toRecv ptr headerRecvd [] inb =
     (if toRecv = 0 then Ok (1, msg, [], inb) else Wait)"
| "recv_loop e msg toRecv ptr headerRecvd (ev # evs) inb =
     (if toRecv = 0 then Ok (1, msg, ev # evs, inb)
      else case ev of
        IoErr \<Rightarrow> Ok (-1, msg, evs, inb)
      | IoEnd \<Rightarrow> Ok (0, msg, evs, inb)
      | IoIntr \<Rightarrow>
          (let (toRecv, ptr, headerRecvd) =
                 recv_switch e msg (toRecv - (-1)) (ptr + (-1)) headerRecvd
           in recv_loop e msg toRecv ptr headerRecvd evs inb)
      | IoN k \<Rightarrow>
          (let recvd = min (Suc k) (min (unat toRecv) (length inb))
           in if recvd = 0 then Wait
              else if ptr < 0 \<or> ptr + int recvd > int sizeof_Msg then Fail OutOfBounds
              else
                (let msg = wr (nat ptr) (take recvd inb) msg;
                     (toRecv, ptr, headerRecvd) =
                       recv_switch e msg (toRecv - of_nat recvd) (ptr + int recvd) headerRecvd
                 in recv_loop e msg toRecv ptr headerRecvd evs (drop recvd inb))))"

definition recvMsg :: "endian \<Rightarrow> sock \<Rightarrow> mem \<Rightarrow> (int \<times> mem \<times> sock) outcome" where
  "recvMsg e sk msg =
     bnd (recv_loop e msg (of_nat sizeof_Header) 0 False (rx_ev sk) (rx_bytes sk))
       (\<lambda>(r, msg, evs, inb). Ok (r, msg, sk\<lparr>rx_ev := evs, rx_bytes := inb\<rparr>))"

section \<open>Sending\<close>

lemma u64_of_nat_eq_0 [simp]: "n < 2 ^ 64 \<Longrightarrow> (of_nat n :: u64) = 0 \<longleftrightarrow> n = 0"
  by (auto simp: word_of_nat_eq_0_iff dest: nat_dvd_not_less)

lemma unat_u64_of_nat [simp]: "n < 2 ^ 64 \<Longrightarrow> unat (of_nat n :: u64) = n"
  by (simp add: unat_of_nat)

lemma unat_ucast_u16_u64 [simp]: "unat (ucast (w :: u16) :: u64) = unat w"
proof -
  have "unat w < 2 ^ 64" using unsigned_less [of w, where ?'a = nat] by simp
  then show ?thesis using unat_u64_of_nat [of "unat w"] by simp
qed

lemma send_loop_IoN:
  assumes "p + n \<le> sizeof_Msg" "0 < n" "s = min (Suc k) n"
  shows "send_loop m (of_nat n) (int p) (IoN k # evs) out =
         send_loop m (of_nat (n - s)) (int (p + s)) evs (out @ rd m p s)"
proof -
  have s: "s \<le> n" "unat (of_nat n :: u64) = n" "(of_nat n :: u64) \<noteq> 0"
    using assms by (auto simp: sizeof_Msg_eq)
  have fits: "\<not> int p + int s > int sizeof_Msg" using assms s by (simp add: sizeof_Msg_eq)
  show ?thesis using s fits by (simp add: Let_def assms(3) [symmetric])
qed

lemma send_loop_done [simp]: "send_loop m 0 p evs out = Ok (1, evs, out)"
  by (cases evs) simp_all

text \<open>
  The promise of a transfer of the \<open>n\<close> bytes at \<open>p\<close>: a return value of 1 means all of them were
  appended to the stream, 0 or -1 that the connection ended after a proper prefix of them.
\<close>

definition sent_ok ::
    "mem \<Rightarrow> nat \<Rightarrow> nat \<Rightarrow> u8 list \<Rightarrow> int \<Rightarrow> u8 list \<Rightarrow> bool" where
  "sent_ok m p n out r out' \<longleftrightarrow>
     (r = 1 \<and> out' = out @ rd m p n) \<or>
     ((r = 0 \<or> r = -1) \<and> (\<exists>k<n. out' = out @ rd m p k))"

lemma sent_ok_step:
  assumes "sent_ok m (p + s) (n - s) (out @ rd m p s) r out'" "s \<le> n"
  shows "sent_ok m p n out r out'"
proof -
  have app: "(out @ rd m p s) @ rd m (p + s) j = out @ rd m p (s + j)" for j
    by (simp add: rd_add)
  have lt: "k < n - s \<Longrightarrow> s + k < n" for k by arith
  show ?thesis
    using assms unfolding sent_ok_def app by (auto dest!: lt)
qed

lemma send_loop_sound:
  assumes "IoIntr \<notin> set evs" "p + n \<le> sizeof_Msg"
  shows "send_loop m (of_nat n) (int p) evs out = Wait \<or>
         (\<exists>r evs' out'. send_loop m (of_nat n) (int p) evs out = Ok (r, evs', out') \<and>
            sent_ok m p n out r out')"
  using assms
proof (induction evs arbitrary: p n out)
  case Nil
  then show ?case by (cases "n = 0") (auto simp: sizeof_Msg_eq sent_ok_def)
next
  case (Cons ev evs)
  show ?case
  proof (cases "n = 0")
    case True
    then show ?thesis by (simp add: sent_ok_def)
  next
    case False
    show ?thesis
    proof (cases ev)
      case (IoN k)
      define s where "s = min (Suc k) n"
      have "s \<le> n" "IoIntr \<notin> set evs" "(p + s) + (n - s) \<le> sizeof_Msg"
        using Cons.prems by (auto simp: s_def)
      then show ?thesis
        using Cons.IH [of "p + s" "n - s" "out @ rd m p s"] False Cons.prems
        unfolding IoN by (auto simp: send_loop_IoN s_def [symmetric] intro: sent_ok_step
            simp del: send_loop.simps of_nat_diff of_nat_add)
    qed (use False Cons.prems in \<open>auto simp: sizeof_Msg_eq sent_ok_def intro!: exI [of _ 0]\<close>)
  qed
qed

lemma send_loop_progress:
  assumes "p + n \<le> sizeof_Msg" "n \<le> length ks"
  shows "\<exists>j\<le>n. send_loop m (of_nat n) (int p) (map IoN ks @ evs) out =
           Ok (1, map IoN (drop j ks) @ evs, out @ rd m p n)"
  using assms
proof (induction ks arbitrary: p n out)
  case Nil
  then show ?case by simp
next
  case (Cons k ks)
  show ?case
  proof (cases "n = 0")
    case False
    define s where "s = min (Suc k) n"
    have s: "0 < s" "s \<le> n" using False by (auto simp: s_def)
    have "(p + s) + (n - s) \<le> sizeof_Msg" "n - s \<le> length ks" using Cons.prems s by auto
    from Cons.IH [OF this, of "out @ rd m p s"] obtain j where "j \<le> n - s"
      "send_loop m (of_nat (n - s)) (int (p + s)) (map IoN ks @ evs) (out @ rd m p s) =
         Ok (1, map IoN (drop j ks) @ evs, (out @ rd m p s) @ rd m (p + s) (n - s))"
      by blast
    then show ?thesis
      using False Cons.prems s
      by (intro exI [of _ "Suc j"])
        (auto simp: send_loop_IoN s_def [symmetric] rd_add [symmetric]
          simp del: send_loop.simps of_nat_diff of_nat_add)
  next
    case True
    then show ?thesis by simp
  qed
qed

section \<open>Receiving\<close>

text \<open>
  A frame is a byte string whose first two bytes, read in network order, give its length, and
  which fits a \<open>Msg\<close>.
\<close>

definition frame_size :: "u8 list \<Rightarrow> nat" where
  "frame_size bs = unat (mk16 (bs ! 0) (bs ! 1))"

definition frame :: "u8 list \<Rightarrow> bool" where
  "frame bs \<longleftrightarrow> sizeof_Header \<le> length bs \<and> length bs \<le> sizeof_Msg \<and> frame_size bs = length bs"

definition got_ok ::
    "mem \<Rightarrow> u8 list \<Rightarrow> u8 list \<Rightarrow> int \<Rightarrow> mem \<Rightarrow> u8 list \<Rightarrow> bool" where
  "got_ok m0 bs rest r msg inb \<longleftrightarrow>
     (r = 1 \<and> msg = wr 0 bs m0 \<and> inb = rest) \<or>
     ((r = 0 \<or> r = -1) \<and>
      (\<exists>k<length bs. msg = wr 0 (take k bs) m0 \<and> inb = drop k bs @ rest))"

text \<open>The bytes still to read in the current phase, and the state of the loop, after \<open>p\<close> bytes of
  the frame \<open>bs\<close> have arrived.\<close>

definition todo :: "u8 list \<Rightarrow> nat \<Rightarrow> nat" where
  "todo bs p = (if p < sizeof_Header then sizeof_Header - p else length bs - p)"

definition recv_at ::
    "endian \<Rightarrow> mem \<Rightarrow> u8 list \<Rightarrow> u8 list \<Rightarrow> nat \<Rightarrow> io_ev list
      \<Rightarrow> (int \<times> mem \<times> io_ev list \<times> u8 list) outcome" where
  "recv_at e m0 bs rest p evs =
     recv_loop e (wr 0 (take p bs) m0)
       (of_nat (todo bs p)) (int p) (sizeof_Header \<le> p) evs (drop p bs @ rest)"

lemma wr_take_extend:
  assumes "p + s \<le> length bs"
  shows "wr p (take s (drop p bs)) (wr 0 (take p bs) m) = wr 0 (take (p + s) bs) m"
  using wr_append [of 0 "take p bs" "take s (drop p bs)" m] assms by (simp add: take_add)

lemma frame_size_read:
  assumes "frame bs"
  shows "ucast (ntohs e (ld16 e (wr 0 (take sizeof_Header bs) m) o_sz8)) = (of_nat (length bs) :: u64)"
proof -
  have "ntohs e (ld16 e (wr 0 (take sizeof_Header bs) m) o_sz8) = mk16 (bs ! 0) (bs ! 1)"
    using assms by (simp add: frame_def ntohs_ld16 wr_inside layout)
  moreover have "length bs = unat (mk16 (bs ! 0) (bs ! 1))"
    using assms by (simp add: frame_def frame_size_def)
  ultimately show ?thesis by simp
qed

lemma todo_facts:
  assumes "frame bs" "p < length bs"
  shows "0 < todo bs p" "todo bs p < 2 ^ 64" "p + todo bs p \<le> length bs"
  using assms by (auto simp: frame_def todo_def sizeof_Msg_eq)

lemma recv_switch_at:
  assumes "frame bs" "p < length bs" "s \<le> todo bs p" "0 < s"
  shows "recv_switch e (wr 0 (take (p + s) bs) m0) (of_nat (todo bs p) - of_nat s) (int p + int s)
        (sizeof_Header \<le> p) =
      (of_nat (todo bs (p + s)), int (p + s), sizeof_Header \<le> p + s)"
proof -
  have diff: "of_nat (todo bs p) - of_nat s = (of_nat (todo bs p - s) :: u64)"
    using assms by simp
  have zero: "(of_nat (todo bs p - s) :: u64) = 0 \<longleftrightarrow> s = todo bs p"
    using todo_facts [OF assms(1,2)] assms(3) by (subst u64_of_nat_eq_0) auto
  show ?thesis
  proof (cases "p < sizeof_Header \<and> s = todo bs p")
    case True
    then have "p + s = sizeof_Header" by (simp add: todo_def)
    with True assms(1) show ?thesis
      unfolding recv_switch_def diff zero
      by (simp add: frame_size_read o_payload_def frame_def todo_def)
  next
    case False
    then have "todo bs p - s = todo bs (p + s)" "sizeof_Header \<le> p \<longleftrightarrow> sizeof_Header \<le> p + s"
      using assms(3) by (auto simp: todo_def split: if_splits)
    with False show ?thesis
      unfolding recv_switch_def diff zero by auto
  qed
qed

lemma recv_at_IoN:
  assumes "frame bs" "p < length bs" "s = min (Suc k) (todo bs p)"
  shows "recv_at e m0 bs rest p (IoN k # evs) = recv_at e m0 bs rest (p + s) evs"
proof -
  note t = todo_facts [OF assms(1,2)]
  have s: "0 < s" "s \<le> todo bs p" "p + s \<le> length bs" using t assms(3) by auto
  have len: "length bs \<le> sizeof_Msg" using assms(1) by (simp add: frame_def)
  have rec: "min (Suc k) (min (unat (of_nat (todo bs p) :: u64)) (length (drop p bs @ rest))) = s"
    using t s assms(3) by (simp add: min_absorb1)
  have msg: "wr (nat (int p)) (take s (drop p bs @ rest)) (wr 0 (take p bs) m0) =
      wr 0 (take (p + s) bs) m0"
    using s by (simp add: wr_take_extend)
  have inb: "drop s (drop p bs @ rest) = drop (p + s) bs @ rest"
    using s by (simp add: add.commute)
  have fits: "\<not> (int p < 0 \<or> int p + int s > int sizeof_Msg)" using s len by simp
  have nz: "(of_nat (todo bs p) :: u64) \<noteq> 0" using t by simp
  show ?thesis
    unfolding recv_at_def recv_loop.simps io_ev.case Let_def rec msg inb
      recv_switch_at [OF assms(1,2) s(2,1)]
    using nz s(1) fits by simp
qed

lemma recv_at_sound:
  assumes "frame bs" "p \<le> length bs" "IoIntr \<notin> set evs"
  shows "recv_at e m0 bs rest p evs = Wait \<or>
         (\<exists>r msg evs' inb. recv_at e m0 bs rest p evs = Ok (r, msg, evs', inb) \<and>
            got_ok m0 bs rest r msg inb)"
  using assms
proof (induction evs arbitrary: p)
  case Nil
  show ?case
  proof (cases "p = length bs")
    case True
    with Nil show ?thesis by (auto simp: recv_at_def todo_def frame_def got_ok_def)
  next
    case False
    with Nil show ?thesis using todo_facts [of bs p] by (simp add: recv_at_def)
  qed
next
  case (Cons ev evs)
  show ?case
  proof (cases "p = length bs")
    case True
    with Cons.prems show ?thesis
      by (auto simp: recv_at_def todo_def frame_def got_ok_def)
  next
    case False
    with Cons.prems have p: "p < length bs" by simp
    note t = todo_facts [OF \<open>frame bs\<close> p]
    show ?thesis
    proof (cases ev)
      case (IoN k)
      then show ?thesis
        using Cons.IH [of "p + min (Suc k) (todo bs p)"] Cons.prems t p
        by (simp add: recv_at_IoN)
    qed (use Cons.prems p t in \<open>auto simp: recv_at_def got_ok_def intro!: exI [of _ p]\<close>)
  qed
qed

lemma recv_at_progress:
  assumes "frame bs" "p \<le> length bs" "length bs - p \<le> length ks"
  shows "\<exists>j\<le>length bs - p. recv_at e m0 bs rest p (map IoN ks @ evs) =
           Ok (1, wr 0 bs m0, map IoN (drop j ks) @ evs, rest)"
  using assms
proof (induction ks arbitrary: p)
  case Nil
  then show ?case by (cases evs) (auto simp: recv_at_def todo_def frame_def)
next
  case (Cons k ks)
  show ?case
  proof (cases "p = length bs")
    case True
    with Cons.prems show ?thesis by (auto simp: recv_at_def todo_def frame_def)
  next
    case False
    with Cons.prems have p: "p < length bs" by simp
    define s where "s = min (Suc k) (todo bs p)"
    have s: "0 < s" "p + s \<le> length bs"
      using todo_facts [OF \<open>frame bs\<close> p] by (auto simp: s_def)
    then have "length bs - (p + s) \<le> length ks" using Cons.prems by simp
    from Cons.IH [OF \<open>frame bs\<close> s(2) this] obtain j where "j \<le> length bs - (p + s)"
      "recv_at e m0 bs rest (p + s) (map IoN ks @ evs) =
         Ok (1, wr 0 bs m0, map IoN (drop j ks) @ evs, rest)"
      by blast
    then show ?thesis
      using recv_at_IoN [OF \<open>frame bs\<close> p s_def, of e m0 rest] s
      by (intro exI [of _ "Suc j"]) auto
  qed
qed

lemma recvMsg_eq_recv_at:
  "rx_bytes sk = bs @ rest \<Longrightarrow>
   recvMsg e sk msg =
     bnd (recv_at e msg bs rest 0 (rx_ev sk))
       (\<lambda>(r, msg, evs, inb). Ok (r, msg, sk\<lparr>rx_ev := evs, rx_bytes := inb\<rparr>))"
  by (simp add: recvMsg_def recv_at_def todo_def layout)

lemma frame_wire: "frame (wire e (encode e p m))"
proof -
  have "frame_size (wire e (encode e p m)) = unat (getSize8 e (encode e p m))"
    using packet_size_bounds(1) [of p]
    by (simp add: frame_size_def wire_encode getSize8_def ntohs_ld16 layout del: getSize8_encode)
  then show ?thesis
    using packet_size_bounds [of p] by (simp add: frame_def unat_packet_size wire_encode)
qed

lemma sendMsg_progress:
  assumes "tx_ev sk = map IoN ks @ evs" "packet_size p \<le> length ks"
  shows "\<exists>j\<le>packet_size p. sendMsg e sk (encode e p m) =
           Ok (1, sk\<lparr>tx_ev := map IoN (drop j ks) @ evs,
                    tx_bytes := tx_bytes sk @ wire e (encode e p m)\<rparr>)"
proof -
  have sz: "ucast (ntohs e (ld16 e (encode e p m) o_sz8)) = (of_nat (packet_size p) :: u64)"
    using getSize8_encode [of e e p m] by (simp add: getSize8_def ucast_packet_size)
  have fits: "0 + packet_size p \<le> sizeof_Msg" by (simp add: packet_size_bounds)
  show ?thesis
    using send_loop_progress [OF fits assms(2), of "encode e p m" evs "tx_bytes sk"]
    by (auto simp: sendMsg_def sz assms(1) wire_encode)
qed

lemma recvMsg_progress:
  assumes "rx_ev sk = map IoN ks @ evs" "frame bs" "length bs \<le> length ks"
    and "rx_bytes sk = bs @ rest"
  shows "\<exists>j\<le>length bs. recvMsg e sk buf =
           Ok (1, wr 0 bs buf, sk\<lparr>rx_ev := map IoN (drop j ks) @ evs, rx_bytes := rest\<rparr>)"
  using recv_at_progress [OF assms(2), of 0 ks e buf rest evs] assms
  by (auto simp: recvMsg_eq_recv_at)

lemma recvMsg_encode:
  assumes "rx_ev sk = map IoN ks @ evs" "packet_size p \<le> length ks"
    and "rx_bytes sk = wire e (encode e p m) @ rest"
  shows "\<exists>j\<le>packet_size p. recvMsg e' sk buf =
           Ok (1, encode e' p buf, sk\<lparr>rx_ev := map IoN (drop j ks) @ evs, rx_bytes := rest\<rparr>)"
proof -
  have "length (wire e (encode e p m)) \<le> length ks" using assms(2) by (simp add: wire_encode)
  from recvMsg_progress [OF assms(1) frame_wire this assms(3), of e' buf]
  show ?thesis unfolding wr_wire_encode [of e p m buf e'] by (simp add: wire_encode)
qed

lemma sendMsg_keeps: "sendMsg e sk msg = Ok (r, sk') \<Longrightarrow>
    rx_ev sk' = rx_ev sk \<and> rx_bytes sk' = rx_bytes sk \<and> sel_ev sk' = sel_ev sk"
  by (auto simp: sendMsg_def bnd_eq_Ok_iff)

lemma recvMsg_keeps: "recvMsg e sk msg = Ok (r, msg', sk') \<Longrightarrow>
    tx_ev sk' = tx_ev sk \<and> tx_bytes sk' = tx_bytes sk \<and> sel_ev sk' = sel_ev sk"
  by (auto simp: recvMsg_def bnd_eq_Ok_iff)

text \<open>A receive consumes at least one event.\<close>

lemma recv_loop_shrinks:
  "recv_loop e msg n p b evs inb = Ok (r, msg', evs', inb') \<Longrightarrow> length evs' \<le> length evs"
  by (induction e msg n p b evs inb rule: recv_loop.induct)
    (auto split: if_splits io_ev.splits prod.splits simp: Let_def le_Suc_eq)

lemma recvMsg_shrinks:
  assumes "recvMsg e sk msg = Ok (r, msg', sk')"
  shows "length (rx_ev sk') < length (rx_ev sk)"
proof (cases "rx_ev sk")
  case Nil
  then show ?thesis using assms by (simp add: recvMsg_def sizeof_Header_def)
next
  case (Cons ev evs)
  then show ?thesis
    using assms
    by (cases ev)
      (auto simp: recvMsg_def bnd_eq_Ok_iff sizeof_Header_def Let_def less_Suc_eq_le
        dest!: recv_loop_shrinks split: if_splits prod.splits)
qed

section \<open>The channel the endpoints rely on\<close>

text \<open>
  \<open>wire_of\<close> is the byte string of a packet. A credit is the number of transfers the system is
  sure to perform without an error or an interruption; a packet needs at most as many as it has
  bytes. Under credit, sending appends the packet to the stream and receiving takes it off.
\<close>

definition wire_of :: "packet \<Rightarrow> u8 list" where
  "wire_of p = wire LE (encode LE p (\<lambda>_. 0))"

primrec is_IoN :: "io_ev \<Rightarrow> bool" where
  "is_IoN (IoN k) = True"
| "is_IoN IoIntr = False"
| "is_IoN IoErr = False"
| "is_IoN IoEnd = False"

definition tx_credit :: "sock \<Rightarrow> nat" where
  "tx_credit sk = length (takeWhile is_IoN (tx_ev sk))"

definition rx_credit :: "sock \<Rightarrow> nat" where
  "rx_credit sk = length (takeWhile is_IoN (rx_ev sk))"

lemma wire_eq_wire_of: "wire e (encode e p m) = wire_of p"
  by (simp add: wire_of_def wire_encode rd_eq_iff encode_canonical [of _ p e m LE "\<lambda>_. 0"])

lemma length_wire_of [simp]: "length (wire_of p) = packet_size p"
  by (simp add: wire_of_def wire_encode)

lemma IoN_prefix: "\<exists>ks. takeWhile is_IoN evs = map IoN ks"
proof (induction evs)
  case (Cons ev evs)
  then obtain ks where "takeWhile is_IoN evs = map IoN ks" by blast
  then show ?case by (cases ev) (auto intro: exI [of _ "_ # ks"] exI [of _ "[]"])
qed simp

lemma takeWhile_IoN: "length ks \<le> length (takeWhile is_IoN (map IoN ks @ evs))"
  by (induction ks) auto

lemma credit_split:
  obtains ks rest where "evs = map IoN ks @ rest" "length ks = length (takeWhile is_IoN evs)"
proof -
  obtain ks where ks: "takeWhile is_IoN evs = map IoN ks" using IoN_prefix by blast
  have "evs = map IoN ks @ dropWhile is_IoN evs" by (metis ks takeWhile_dropWhile_id)
  then show ?thesis using that ks by (metis length_map)
qed

locale packet_channel =
  fixes snd_msg :: "endian \<Rightarrow> 's \<Rightarrow> mem \<Rightarrow> (int \<times> 's) outcome"
    and rcv_msg :: "endian \<Rightarrow> 's \<Rightarrow> mem \<Rightarrow> (int \<times> mem \<times> 's) outcome"
    and outb :: "'s \<Rightarrow> u8 list" and inb :: "'s \<Rightarrow> u8 list"
    and txc :: "'s \<Rightarrow> nat" and rxc :: "'s \<Rightarrow> nat"
    and feed :: "u8 list \<Rightarrow> 's \<Rightarrow> 's"
  assumes send_ok: "packet_size p \<le> txc sk \<Longrightarrow>
       \<exists>sk'. snd_msg e sk (encode e p m) = Ok (1, sk') \<and> outb sk' = outb sk @ wire_of p \<and>
         inb sk' = inb sk \<and> txc sk \<le> txc sk' + packet_size p \<and> rxc sk' = rxc sk"
    and recv_ok: "packet_size p \<le> rxc sk \<Longrightarrow> inb sk = wire_of p @ rest \<Longrightarrow>
       \<exists>sk'. rcv_msg e sk buf = Ok (1, encode e p buf, sk') \<and> inb sk' = rest \<and>
         outb sk' = outb sk \<and> txc sk' = txc sk \<and> rxc sk \<le> rxc sk' + packet_size p"
    and feed_inb: "inb (feed bs sk) = inb sk @ bs"
    and feed_rxc: "rxc (feed bs sk) = rxc sk"
begin

text \<open>A packet handed to one end arrives at the other.\<close>

lemma transfer:
  assumes "packet_size p \<le> txc a" "outb a = []" "packet_size p \<le> rxc b" "inb b = []"
  shows "\<exists>a' b'. snd_msg e a (encode e p m) = Ok (1, a') \<and>
           rcv_msg e2 (feed (outb a') b) buf = Ok (1, encode e2 p buf, b') \<and> inb b' = []"
proof -
  obtain a' where a': "snd_msg e a (encode e p m) = Ok (1, a')" "outb a' = wire_of p"
    using send_ok [OF assms(1), of e m] assms(2) by auto
  have "inb (feed (outb a') b) = wire_of p @ []" "packet_size p \<le> rxc (feed (outb a') b)"
    using a'(2) assms(3,4) by (simp_all add: feed_inb feed_rxc)
  with recv_ok show ?thesis using a'(1) by meson
qed

end

text \<open>Bytes the other end sent arrive behind those already waiting.\<close>

definition feed :: "u8 list \<Rightarrow> sock \<Rightarrow> sock" where
  "feed bs sk = sk\<lparr>rx_bytes := rx_bytes sk @ bs\<rparr>"

lemma credit_drop:
  assumes "j \<le> n"
  shows "length ks \<le> length (takeWhile is_IoN (map IoN (drop j ks) @ rest)) + n"
  using takeWhile_IoN [of "drop j ks" rest] assms by simp

interpretation chan: packet_channel sendMsg recvMsg tx_bytes rx_bytes tx_credit rx_credit feed
proof
  fix p sk e m
  assume c: "packet_size p \<le> tx_credit sk"
  obtain ks rest where ks: "tx_ev sk = map IoN ks @ rest" "length ks = tx_credit sk"
    using credit_split [of "tx_ev sk"] unfolding tx_credit_def by blast
  with sendMsg_progress [OF ks(1), of p e m] c credit_drop [of _ "packet_size p" ks rest]
  show "\<exists>sk'. sendMsg e sk (encode e p m) = Ok (1, sk') \<and> tx_bytes sk' = tx_bytes sk @ wire_of p \<and>
      rx_bytes sk' = rx_bytes sk \<and> tx_credit sk \<le> tx_credit sk' + packet_size p \<and>
      rx_credit sk' = rx_credit sk"
    by (fastforce simp: wire_eq_wire_of tx_credit_def rx_credit_def)
next
  fix p sk rest e buf
  assume c: "packet_size p \<le> rx_credit sk" "rx_bytes sk = wire_of p @ rest"
  obtain ks evs where ks: "rx_ev sk = map IoN ks @ evs" "length ks = rx_credit sk"
    using credit_split [of "rx_ev sk"] unfolding rx_credit_def by blast
  with recvMsg_encode [OF ks(1), of p LE "\<lambda>_. 0" rest e buf] c
    credit_drop [of _ "packet_size p" ks evs]
  show "\<exists>sk'. recvMsg e sk buf = Ok (1, encode e p buf, sk') \<and> rx_bytes sk' = rest \<and>
      tx_bytes sk' = tx_bytes sk \<and> tx_credit sk' = tx_credit sk \<and>
      rx_credit sk \<le> rx_credit sk' + packet_size p"
    by (fastforce simp: wire_eq_wire_of tx_credit_def rx_credit_def)
qed (simp_all add: feed_def rx_credit_def)

text \<open>Without credit a send may wait or report an error, but without interrupted calls it never
  faults.\<close>

definition quiet :: "sock \<Rightarrow> bool" where
  "quiet sk \<longleftrightarrow> IoIntr \<notin> set (tx_ev sk)"

lemma send_loop_events:
  "send_loop m n p evs out = Ok (r, evs', out') \<Longrightarrow> set evs' \<subseteq> set evs"
  by (induction m n p evs out rule: send_loop.induct)
    (auto split: if_splits io_ev.splits simp: Let_def)

lemma sendMsg_quiet:
  assumes "quiet sk"
  shows "sendMsg e sk (encode e p m) = Wait \<or>
         (\<exists>r sk'. sendMsg e sk (encode e p m) = Ok (r, sk') \<and> quiet sk' \<and> r \<in> {1, 0, -1})"
proof -
  have sz: "ucast (ntohs e (ld16 e (encode e p m) o_sz8)) = (of_nat (packet_size p) :: u64)"
    using getSize8_encode [of e e p m] by (simp add: getSize8_def ucast_packet_size)
  have fits: "0 + packet_size p \<le> sizeof_Msg" by (simp add: packet_size_bounds)
  show ?thesis
    using send_loop_sound [OF assms [unfolded quiet_def] fits, of "encode e p m" "tx_bytes sk"]
      assms send_loop_events [of "encode e p m" "of_nat (packet_size p)" 0 "tx_ev sk" "tx_bytes sk"]
    by (fastforce simp: sendMsg_def sz quiet_def sent_ok_def)
qed

text \<open>Example data: a socket that may send and receive \<open>n\<close> times.\<close>

definition ex_sock :: "nat \<Rightarrow> u8 list \<Rightarrow> sock" where
  "ex_sock n bs = \<lparr>rx_ev = map IoN (replicate n 0), rx_bytes = bs, tx_ev = map IoN (replicate n 0),
     tx_bytes = [], sel_ev = []\<rparr>"

lemma takeWhile_replicate_IoN [simp]: "takeWhile is_IoN (replicate n (IoN k)) = replicate n (IoN k)"
  by (simp add: takeWhile_eq_all_conv)

lemma ex_sock_simps [simp]:
  "tx_credit (ex_sock n bs) = n" "rx_credit (ex_sock n bs) = n" "rx_bytes (ex_sock n bs) = bs"
  "tx_bytes (ex_sock n bs) = []" "quiet (ex_sock n bs)"
  by (simp_all add: ex_sock_def tx_credit_def rx_credit_def quiet_def)

section \<open>Faults\<close>

text \<open>An interrupted call moves the cursor one byte back and asks for one byte more.\<close>

lemma send_loop_intr:
  "toSend \<noteq> 0 \<Longrightarrow>
   send_loop m toSend p (IoIntr # evs) out = send_loop m (toSend + 1) (p - 1) evs out"
  by simp

text \<open>A receive whose remaining length exceeds the object runs over its end.\<close>

lemma recv_loop_overflow:
  assumes "p \<le> sizeof_Msg" "sizeof_Msg - p < unat n" "sizeof_Msg - p < length inb"
    and "sizeof_Msg - p < length ks"
  shows "recv_loop e m n (int p) True (map IoN ks @ evs) inb = Fail OutOfBounds"
  using assms
proof (induction ks arbitrary: p n inb m)
  case (Cons k ks)
  define s where "s = min (Suc k) (min (unat n) (length inb))"
  have n0: "n \<noteq> 0" using Cons.prems(2) by auto
  have s: "0 < s" "s \<le> unat n" "s \<le> length inb" using Cons.prems by (auto simp: s_def)
  show ?case
  proof (cases "sizeof_Msg < p + s")
    case True
    then show ?thesis using n0 s by (simp add: s_def [symmetric] Let_def)
  next
    case False
    have "s < 2 ^ 64" using s(2) unsigned_less [of n, where ?'a = nat] by simp
    then have "unat (of_nat s :: u64) = s" by simp
    then have u: "unat (n - of_nat s) = unat n - s"
      using s(2) by (simp add: unat_sub word_le_nat_alt)
    have "recv_loop e m n (int p) True (map IoN (k # ks) @ evs) inb =
        recv_loop e (wr p (take s inb) m) (n - of_nat s) (int (p + s)) True (map IoN ks @ evs)
          (drop s inb)"
      using n0 s False by (simp add: s_def [symmetric] Let_def recv_switch_def)
    also have "\<dots> = Fail OutOfBounds"
      using False Cons.prems s u by (intro Cons.IH) auto
    finally show ?thesis .
  qed
qed simp

section \<open>Properties\<close>

text \<open>C26: when no call is interrupted, \<open>sendMsg\<close> of any message built by a setter, under any way the
  system cuts the transfer, never leaves the object, returns 1 only after exactly the message's
  bytes have been appended to the stream, and returns 0 or -1 only after a proper prefix.\<close>

theorem sendMsg_sound:
  assumes "IoIntr \<notin> set (tx_ev sk)"
  shows "sendMsg e sk (encode e p m) = Wait \<or>
         (\<exists>r sk'. sendMsg e sk (encode e p m) = Ok (r, sk') \<and>
            sent_ok (encode e p m) 0 (packet_size p) (tx_bytes sk) r (tx_bytes sk') \<and>
            rx_bytes sk' = rx_bytes sk)"
proof -
  have sz: "ucast (ntohs e (ld16 e (encode e p m) o_sz8)) = (of_nat (packet_size p) :: u64)"
    using getSize8_encode [of e e p m] by (simp add: getSize8_def ucast_packet_size)
  have fits: "0 + packet_size p \<le> sizeof_Msg" by (simp add: packet_size_bounds)
  show ?thesis
    using send_loop_sound [OF assms fits, of "encode e p m" "tx_bytes sk"]
    by (auto simp: sendMsg_def sz)
qed

theorem sendMsg_sound_witness:
  "IoIntr \<notin> set (tx_ev \<lparr>rx_ev = [], rx_bytes = [], tx_ev = [IoN 2, IoN 9], tx_bytes = [],
     sel_ev = []\<rparr>) \<and>
   (\<exists>r sk'. sendMsg LE \<lparr>rx_ev = [], rx_bytes = [], tx_ev = [IoN 2, IoN 9], tx_bytes = [],
        sel_ev = []\<rparr> (encode LE JobReq (\<lambda>_. 0)) = Ok (r, sk') \<and> r = 1 \<and>
      tx_bytes sk' = [0, 5, 0x80, 1, 13])"
proof -
  let ?sk = "\<lparr>rx_ev = [], rx_bytes = [], tx_ev = [IoN 2, IoN 9], tx_bytes = [], sel_ev = []\<rparr>"
  have h: "IoIntr \<notin> set (tx_ev ?sk)" by simp
  have "\<exists>sk'. sendMsg LE ?sk (encode LE JobReq (\<lambda>_. 0)) = Ok (1, sk')"
    by (simp add: sendMsg_def eval_msg Let_def hi8_def lo8_def mk16_def)
  with sendMsg_sound [OF h, of LE JobReq "\<lambda>_. 0"] h show ?thesis
    by (auto simp: sent_ok_def eval_msg Let_def hi8_def lo8_def rd_def upt_conv_Cons)
qed

text \<open>C14: a packet sent by one host is received as the same packet by another, for every way the two
  systems cut the transfer into pieces and whatever follows it on the stream: both calls return 1
  as soon as the systems move a byte often enough, nothing of the next message is consumed, and the
  receiver's getters give back the packet.\<close>

theorem send_recv_roundtrip:
  assumes "packet_ok p"
    and "tx_ev sk = map IoN ks @ evs" "packet_size p \<le> length ks" "tx_bytes sk = []"
    and "rx_ev sk2 = map IoN ks2 @ evs2" "packet_size p \<le> length ks2"
  shows "\<exists>sk' buf' sk2'. sendMsg e sk (encode e p m) = Ok (1, sk') \<and>
           recvMsg e2 (sk2\<lparr>rx_bytes := tx_bytes sk' @ rest\<rparr>) buf = Ok (1, buf', sk2') \<and>
           rx_bytes sk2' = rest \<and> decode e2 buf' = Some p"
proof -
  obtain evs' where snd: "sendMsg e sk (encode e p m) =
      Ok (1, sk\<lparr>tx_ev := evs', tx_bytes := wire e (encode e p m)\<rparr>)"
    using sendMsg_progress [OF assms(2,3), of e m] assms(4) by auto
  let ?sk2 = "sk2\<lparr>rx_bytes := wire e (encode e p m) @ rest\<rparr>"
  have "rx_ev ?sk2 = map IoN ks2 @ evs2" "rx_bytes ?sk2 = wire e (encode e p m) @ rest"
    using assms(5) by simp_all
  from recvMsg_encode [OF this(1) assms(6) this(2), of e2 buf] snd show ?thesis
    using assms(1) by (auto simp: decode_def decode_encode_aux)
qed

theorem send_recv_roundtrip_witness:
  "\<exists>sk' buf' sk2'.
     sendMsg LE \<lparr>rx_ev = [], rx_bytes = [], tx_ev = map IoN (replicate 9 0), tx_bytes = [],
       sel_ev = []\<rparr> (encode LE (JobDone 7 3) (\<lambda>_. 0)) = Ok (1, sk') \<and>
     recvMsg BE (\<lparr>rx_ev = map IoN (replicate 9 4), rx_bytes = [], tx_ev = [], tx_bytes = [],
       sel_ev = []\<rparr>\<lparr>rx_bytes := tx_bytes sk' @ [0, 5]\<rparr>) (\<lambda>_. 1) = Ok (1, buf', sk2') \<and>
     rx_bytes sk2' = [0, 5] \<and> decode BE buf' = Some (JobDone 7 3)"
  by (rule send_recv_roundtrip [where evs = "[]" and ?evs2.0 = "[]" and ks = "replicate 9 0"
        and ?ks2.0 = "replicate 9 4"])
    (simp_all add: layout const_defs)

text \<open>C27: without interrupted calls, \<open>recvMsg\<close> on a stream that starts with a well-formed frame never
  writes outside the object; it returns 1 only with exactly the frame in the message and the stream
  positioned after it, and 0 or -1 only while the frame is incomplete.\<close>

theorem recvMsg_sound:
  assumes "IoIntr \<notin> set (rx_ev sk)" "frame bs" "rx_bytes sk = bs @ rest"
  shows "recvMsg e sk buf = Wait \<or>
         (\<exists>r msg sk'. recvMsg e sk buf = Ok (r, msg, sk') \<and>
            got_ok buf bs rest r msg (rx_bytes sk'))"
  using recv_at_sound [OF assms(2) _ assms(1), of 0 e buf rest] assms(3)
  by (auto simp: recvMsg_eq_recv_at)

theorem recvMsg_sound_witness:
  "\<exists>r msg sk'. recvMsg LE \<lparr>rx_ev = [IoN 1, IoEnd], rx_bytes = [0, 5, 0x80, 1, 13] @ [],
      tx_ev = [], tx_bytes = [], sel_ev = []\<rparr> (\<lambda>_. 0) = Ok (r, msg, sk') \<and> r = 0 \<and>
      got_ok (\<lambda>_. 0) [0, 5, 0x80, 1, 13] [] r msg (rx_bytes sk')"
proof -
  let ?sk = "\<lparr>rx_ev = [IoN 1, IoEnd], rx_bytes = [0, 5, 0x80, 1, 13] @ [], tx_ev = [],
    tx_bytes = [], sel_ev = []\<rparr>"
  have "\<exists>msg sk'. recvMsg LE ?sk (\<lambda>_. 0) = Ok (0, msg, sk')"
    by (simp add: recvMsg_def layout const_defs recv_switch_def)
  moreover have "IoIntr \<notin> set (rx_ev ?sk)" "frame [0, 5, 0x80, 1, 13]"
    "rx_bytes ?sk = [0, 5, 0x80, 1, 13] @ []"
    by (simp_all add: frame_def frame_size_def mk16_def layout const_defs)
  ultimately show ?thesis
    using recvMsg_sound [of ?sk "[0, 5, 0x80, 1, 13]" "[]" LE "\<lambda>_. 0"] by auto
qed

text \<open>C37: an interrupted \<open>send\<close> corrupts the stream. If the system takes the first \<open>j\<close> bytes, interrupts
  the next call and then takes the rest, \<open>sendMsg\<close> returns 1 having sent byte \<open>j - 1\<close> twice; if the
  very first call is interrupted, the next one reads before the object.\<close>

theorem sendMsg_eintr:
  assumes "0 < j" "j < packet_size p"
  shows "sendMsg e (sk\<lparr>tx_ev := [IoN (j - 1), IoIntr, IoN sizeof_Msg], tx_bytes := []\<rparr>) (encode e p m) =
           Ok (1, sk\<lparr>tx_ev := [], tx_bytes :=
             rd (encode e p m) 0 j @ rd (encode e p m) (j - 1) (packet_size p - (j - 1))\<rparr>) \<and>
         sendMsg e (sk\<lparr>tx_ev := [IoIntr, IoN k]\<rparr>) (encode e p m) = Fail OutOfBounds"
proof -
  let ?m = "encode e p m" and ?n = "packet_size p"
  have sz: "ucast (ntohs e (ld16 e ?m o_sz8)) = (of_nat ?n :: u64)"
    using getSize8_encode [of e e p m] by (simp add: getSize8_def ucast_packet_size)
  have n: "?n \<le> sizeof_Msg" by (rule packet_size_bounds)
  have "send_loop ?m (of_nat ?n) (int 0) [IoN (j - 1), IoIntr, IoN sizeof_Msg] [] =
      send_loop ?m (of_nat (?n - j)) (int j) [IoIntr, IoN sizeof_Msg] (rd ?m 0 j)"
    using send_loop_IoN [of 0 ?n j "j - 1"] assms n by (simp del: send_loop.simps of_nat_diff)
  also have "\<dots> = send_loop ?m (of_nat (?n - (j - 1))) (int (j - 1)) [IoN sizeof_Msg] (rd ?m 0 j)"
  proof -
    have "?n - (j - 1) = Suc (?n - j)" using assms by simp
    then have "(of_nat (?n - (j - 1)) :: u64) = of_nat (?n - j) + 1" by simp
    moreover have "(of_nat (?n - j) :: u64) \<noteq> 0"
      using assms n by (subst u64_of_nat_eq_0) (auto simp: sizeof_Msg_eq)
    ultimately show ?thesis
      using assms by (simp add: send_loop_intr of_nat_diff algebra_simps del: send_loop.simps)
  qed
  also have "\<dots> = Ok (1, [], rd ?m 0 j @ rd ?m (j - 1) (?n - (j - 1)))"
    using send_loop_IoN [of "j - 1" "?n - (j - 1)" "?n - (j - 1)" sizeof_Msg] assms n
    by (simp del: send_loop.simps(2) of_nat_diff)
  finally have 1: "send_loop ?m (of_nat ?n) 0 [IoN (j - 1), IoIntr, IoN sizeof_Msg] [] =
      Ok (1, [], rd ?m 0 j @ rd ?m (j - 1) (?n - (j - 1)))" by simp
  have 2: "send_loop ?m (of_nat ?n) 0 [IoIntr, IoN k] out = Fail OutOfBounds" for out
    using u64_of_nat_eq_0 [of "Suc ?n"] assms n by (simp add: sizeof_Msg_eq add.commute)
  show ?thesis using 1 by (simp add: sendMsg_def sz 2 del: send_loop.simps)
qed

theorem sendMsg_eintr_witness:
  "sendMsg LE (\<lparr>rx_ev = [], rx_bytes = [], tx_ev = [], tx_bytes = [], sel_ev = []\<rparr>
       \<lparr>tx_ev := [IoN (3 - 1), IoIntr, IoN sizeof_Msg], tx_bytes := []\<rparr>) (encode LE JobReq (\<lambda>_. 0)) =
     Ok (1, \<lparr>rx_ev = [], rx_bytes = [], tx_ev = [], tx_bytes = [0, 5, 0x80, 0x80, 1, 13],
       sel_ev = []\<rparr>)"
proof -
  have "(0 :: nat) < 3" "3 < packet_size JobReq" by (simp_all add: layout)
  from sendMsg_eintr [OF this, of LE
      "\<lparr>rx_ev = [], rx_bytes = [], tx_ev = [], tx_bytes = [], sel_ev = []\<rparr>" "\<lambda>_. 0"]
  show ?thesis
    by (simp add: eval_msg Let_def hi8_def lo8_def rd_def upt_conv_Cons)
qed

text \<open>C36: \<open>recvMsg\<close> trusts the size field. A header that announces fewer bytes than a header or more
  than a \<open>Msg\<close> makes it write behind the object as soon as enough bytes follow (for a small size
  the remaining length wraps around).\<close>

theorem recvMsg_overflow:
  assumes "length hdr = sizeof_Header"
    and "frame_size hdr < sizeof_Header \<or> sizeof_Msg < frame_size hdr"
    and "sizeof_Msg - sizeof_Header < length data" "sizeof_Msg - sizeof_Header < length ks"
    and "rx_ev sk = IoN (sizeof_Header - 1) # map IoN ks @ evs" "rx_bytes sk = hdr @ data"
  shows "recvMsg e sk buf = Fail OutOfBounds"
proof -
  let ?m = "wr 0 hdr buf" and ?n = "ucast (mk16 (hdr ! 0) (hdr ! 1)) - 5 :: u64"
  have sz: "ntohs e (ld16 e ?m o_sz8) = mk16 (hdr ! 0) (hdr ! 1)"
    using assms(1) by (simp add: ntohs_ld16 wr_inside layout)
  have "recvMsg e sk buf =
      bnd (recv_loop e ?m ?n (int o_payload) True (map IoN ks @ evs) data)
        (\<lambda>(r, msg, evs, inb). Ok (r, msg, sk\<lparr>rx_ev := evs, rx_bytes := inb\<rparr>))"
    using assms(1,5,6) sz
    by (simp add: recvMsg_def recv_switch_def Let_def sizeof_Msg_eq) (simp add: layout)
  moreover have "520 < unat ?n"
    using assms(2) by (auto simp: unat_sub_if' frame_size_def sizeof_Msg_eq sizeof_Header_def)
  then have "recv_loop e ?m ?n (int o_payload) True (map IoN ks @ evs) data = Fail OutOfBounds"
    using assms(3,4)
    by (intro recv_loop_overflow) (simp_all add: sizeof_Msg_eq o_payload_def sizeof_Header_def)
  ultimately show ?thesis by simp
qed

theorem recvMsg_overflow_witness:
  "recvMsg LE \<lparr>rx_ev = IoN (sizeof_Header - 1) # map IoN (replicate 521 0) @ [],
      rx_bytes = [0, 4, 0x80, 1, 13] @ replicate 521 65, tx_ev = [], tx_bytes = [],
      sel_ev = []\<rparr> (\<lambda>_. 0) = Fail OutOfBounds"
  by (rule recvMsg_overflow [where hdr = "[0, 4, 0x80, 1, 13]" and data = "replicate 521 65"
        and ks = "replicate 521 0" and evs = "[]"])
    (simp_all add: sizeof_Msg_eq sizeof_Header_def frame_size_def mk16_def)

end
