(* ===== verification/MainServer.thy ===== *)
theory MainServer
  imports History Transport
begin

text \<open>
  The request handlers of \<open>main_server.c\<close>, composed of the critical sections of \<open>JobQueue\<close> and
  \<open>History\<close> and the message transport. A handler takes the server state and the socket of its
  connection and returns both; each critical section is one definition, so the handlers also say
  where other threads may run in between. What the operating system and the allocator provide is in
  \<open>env\<close>.
\<close>

section \<open>Environment of a handler\<close>

text \<open>
  The host's byte order, what \<open>time\<close> returns, the contents of freshly allocated blocks and of the
  uninitialised \<open>Msg\<close> on the stack.
\<close>

record env =
  en_host :: endian
  en_time :: int
  en_job :: Job_t
  en_hist :: JobHistory_t
  en_stack :: mem

section \<open>Start and end\<close>

text \<open>The return codes of the \<open>pthread\<close> calls are parameters; \<open>rc i\<close> are those of \<open>QueueInit(i)\<close>.\<close>

fun init_queues :: "(nat \<Rightarrow> int \<times> int \<times> int) \<Rightarrow> nat list \<Rightarrow> Queue_t list outcome" where
  "init_queues rc [] = Ok []"
| "init_queues rc (i # is) =
     (case rc i of (mx, c1, c2) \<Rightarrow>
        bnd (QueueInit mx c1 c2 (of_nat i)) (\<lambda>q.
        bnd (init_queues rc is) (\<lambda>qs. Ok (q # qs))))"

definition MainServerInit :: "int \<Rightarrow> int \<Rightarrow> (nat \<Rightarrow> int \<times> int \<times> int) \<Rightarrow> server outcome" where
  "MainServerInit mx1 mx2 rc =
     (if mx1 \<noteq> 0 then Fail (ProcExit (-1))
      else if mx2 \<noteq> 0 then Fail (ProcExit (-1))
      else bnd (init_queues rc [0..<NUM_QUEUE_MAX]) (\<lambda>qs.
        Ok \<lparr>job_array = replicate JOB_HISTORY_MAX NULL, history_putidx = 0, queue = qs,
            queue2put = 0, queue2get = 0, job_mem = empty_heap, hist_mem = empty_heap\<rparr>))"

fun destroy_queues ::
    "(nat \<Rightarrow> int \<times> int \<times> int) \<Rightarrow> nat \<Rightarrow> Queue_t list \<Rightarrow> job_heap \<Rightarrow> job_heap outcome" where
  "destroy_queues rc i [] h = Ok h"
| "destroy_queues rc i (q # qs) h =
     (case rc i of (mx, c1, c2) \<Rightarrow>
        bnd (QueueDestroy mx c1 c2 q h) (destroy_queues rc (Suc i) qs))"

text \<open>A failing \<open>pthread_mutex_destroy\<close> of the server's own mutexes is only reported.\<close>

definition MainServerDestroy ::
    "(nat \<Rightarrow> int \<times> int \<times> int) \<Rightarrow> server \<Rightarrow> (job_heap \<times> hist_heap) outcome" where
  "MainServerDestroy rc s =
     bnd (destroy_queues rc 0 (queue s) (job_mem s)) (\<lambda>jm.
     let limit = (if unat (history_putidx s) < JOB_HISTORY_MAX then unat (history_putidx s)
                  else JOB_HISTORY_MAX)
     in bnd (free_list mfree (take limit (job_array s)) (hist_mem s)) (\<lambda>hm. Ok (jm, hm)))"

section \<open>Sections shared by the handlers\<close>

text \<open>Under \<open>main_server_mtx\<close>: the next queue to put to and to take from, round robin.\<close>

definition nextPut :: "server \<Rightarrow> nat \<times> server" where
  "nextPut s = (unat (queue2put s mod of_nat NUM_QUEUE_MAX), s\<lparr>queue2put := queue2put s + 1\<rparr>)"

definition nextGet :: "server \<Rightarrow> nat \<times> server" where
  "nextGet s = (unat (queue2get s mod of_nat NUM_QUEUE_MAX), s\<lparr>queue2get := queue2get s + 1\<rparr>)"

text \<open>\<open>putJob\<close> and \<open>takeJob\<close> on a queue of the server.\<close>

definition putJob_at :: "nat \<Rightarrow> ptr \<Rightarrow> server \<Rightarrow> server outcome" where
  "putJob_at qi job s = bnd (putJob job (queue s ! qi)) (\<lambda>q. Ok (s\<lparr>queue := (queue s)[qi := q]\<rparr>))"

definition takeJob_at :: "nat \<Rightarrow> server \<Rightarrow> (ptr \<times> server) outcome" where
  "takeJob_at qi s =
     bnd (takeJob (queue s ! qi)) (\<lambda>(job, q). Ok (job, s\<lparr>queue := (queue s)[qi := q]\<rparr>))"

text \<open>\<open>sendMsg\<close> whose failure is only reported.\<close>

definition reply :: "endian \<Rightarrow> sock \<Rightarrow> mem \<Rightarrow> sock outcome" where
  "reply e sk pkg = bnd (sendMsg e sk pkg) (\<lambda>(err, sk). Ok sk)"

section \<open>Client requests\<close>

definition submittedResponse :: "env \<Rightarrow> u16 \<Rightarrow> sock \<Rightarrow> sock outcome" where
  "submittedResponse en jobid sk =
     reply (en_host en) sk (setJobID (en_host en) (en_stack en) \<lparr>job_id = jobid\<rparr>)"

text \<open>
  \<open>newJob\<close> up to the point where it hands the job to \<open>putJob\<close>, which may wait: by then the job is
  recorded and the client has its answer.
\<close>

definition newJob_record ::
    "env \<Rightarrow> ptr \<Rightarrow> server \<Rightarrow> sock \<Rightarrow> (nat \<times> server \<times> sock) outcome" where
  "newJob_record en new_job s sk =
     (let (job_history, hm) = malloc (en_hist en) (hist_mem s);
          s = s\<lparr>hist_mem := hm\<rparr>;
          (queue_idx, s) = nextPut s
      in bnd (mload new_job (job_mem s)) (\<lambda>job.
         bnd (mload job_history (hist_mem s)) (\<lambda>jh.
         bnd (mstore job_history
                (setParamsNewJobHistory jh (of_nat queue_idx) (jb_ipaddr job) (en_time en))
                (hist_mem s)) (\<lambda>hm.
         bnd (registerJob job_history (s\<lparr>hist_mem := hm\<rparr>)) (\<lambda>(new_jobid, s).
         bnd (submittedResponse en new_jobid sk) (\<lambda>sk.
         bnd (mstore new_job (job\<lparr>jb_id := new_jobid\<rparr>) (job_mem s)) (\<lambda>jm.
           Ok (queue_idx, s\<lparr>job_mem := jm\<rparr>, sk))))))))"

definition newJob :: "env \<Rightarrow> ptr \<Rightarrow> server \<Rightarrow> sock \<Rightarrow> (server \<times> sock) outcome" where
  "newJob en new_job s sk =
     bnd (newJob_record en new_job s sk) (\<lambda>(queue_idx, s, sk).
     bnd (putJob_at queue_idx new_job s) (\<lambda>s. Ok (s, sk)))"

definition submitNoInter :: "env \<Rightarrow> mem \<Rightarrow> server \<Rightarrow> sock \<Rightarrow> (server \<times> sock) outcome" where
  "submitNoInter en pkg s sk =
     (let file_exec = getExec_fileExec pkg;
          job = (en_job en)
            \<lparr>jb_exec_file := strncpy_bytes (SZ_PATH * NUM_PATH) (fe_exec_file file_exec),
             jb_working_dir := strncpy_bytes SZ_PATH (fe_working_dir file_exec),
             jb_port := 0, jb_ipaddr := 0\<rparr>;
          (new_job, jm) = malloc job (job_mem s)
      in newJob en new_job (s\<lparr>job_mem := jm\<rparr>) sk)"

definition submitInter :: "env \<Rightarrow> mem \<Rightarrow> server \<Rightarrow> sock \<Rightarrow> (server \<times> sock) outcome" where
  "submitInter en pkg s sk =
     (let file_exec = getExecAddr_fileExec pkg;
          job = (en_job en)
            \<lparr>jb_exec_file := strncpy_bytes (SZ_PATH * NUM_PATH) (fe_exec_file file_exec),
             jb_working_dir := strncpy_bytes SZ_PATH (fe_working_dir file_exec),
             jb_port := getExecAddr_port (en_host en) pkg,
             jb_ipaddr := getExecAddr_ipadd (en_host en) pkg\<rparr>;
          (new_job, jm) = malloc job (job_mem s)
      in newJob en new_job (s\<lparr>job_mem := jm\<rparr>) sk)"

definition jobState :: "env \<Rightarrow> u16 \<Rightarrow> server \<Rightarrow> sock \<Rightarrow> sock outcome" where
  "jobState en jobid s sk =
     bnd (findJob jobid s) (\<lambda>idx.
     bnd (if idx < 0 \<or> idx \<ge> int JOB_HISTORY_MAX
          then Ok (setBadParams (en_host en) (en_stack en))
          else bnd (hist_at idx s) (\<lambda>jh.
            Ok (setJobState (en_host en) (en_stack en)
                  \<lparr>js_state = jh_state jh, js_jobid = \<lparr>job_id = jobid\<rparr>,
                   js_exit_value = jh_exit_status jh\<rparr>))) (\<lambda>pkg.
     reply (en_host en) sk pkg))"

definition queueState :: "env \<Rightarrow> QueueID \<Rightarrow> server \<Rightarrow> sock \<Rightarrow> sock outcome" where
  "queueState en queueid s sk =
     reply (en_host en) sk
       (if unat (queue_id queueid) \<ge> NUM_QUEUE_MAX
        then setBadParams (en_host en) (en_stack en)
        else setQueueState (en_host en) (en_stack en)
               \<lparr>qs_state = q_state (queue s ! unat (queue_id queueid)), qs_queueid = queueid\<rparr>)"

text \<open>\<open>unsubmit\<close> checks the state, removes the job from its queue and marks it, in three critical
  sections.\<close>

definition unsubmit_check :: "u16 \<Rightarrow> server \<Rightarrow> u8 option outcome" where
  "unsubmit_check jobid s =
     bnd (findJob jobid s) (\<lambda>history_idx.
       if history_idx < 0 then Ok None
       else bnd (hist_at history_idx s) (\<lambda>jh.
         if jh_state jh \<noteq> JOB_STATE_u8 STATE_WAIT then Ok None else Ok (Some (jh_queue_idx jh))))"

definition unsubmit_remove :: "u16 \<Rightarrow> u8 \<Rightarrow> server \<Rightarrow> server outcome" where
  "unsubmit_remove jobid q_idx s =
     (if unat q_idx < NUM_QUEUE_MAX then
        bnd (removeJob jobid (queue s ! unat q_idx) (job_mem s)) (\<lambda>(q, jm).
          Ok (s\<lparr>queue := (queue s)[unat q_idx := q], job_mem := jm\<rparr>))
      else Fail OutOfBounds)"

definition unsubmit_mark :: "u16 \<Rightarrow> server \<Rightarrow> server outcome" where
  "unsubmit_mark jobid s =
     bnd (findJob jobid s) (\<lambda>history_idx.
       hist_set history_idx (\<lambda>jh. jh\<lparr>jh_state := JOB_STATE_u8 STATE_UNSUBMITED\<rparr>) s)"

definition unsubmit :: "env \<Rightarrow> u16 \<Rightarrow> server \<Rightarrow> sock \<Rightarrow> (server \<times> sock) outcome" where
  "unsubmit en jobid s sk =
     bnd (unsubmit_check jobid s) (\<lambda>r.
       case r of
         None \<Rightarrow>
           bnd (reply (en_host en) sk (setBadParams (en_host en) (en_stack en))) (\<lambda>sk. Ok (s, sk))
       | Some q_idx \<Rightarrow>
           bnd (unsubmit_remove jobid q_idx s) (\<lambda>s.
           bnd (unsubmit_mark jobid s) (\<lambda>s.
           bnd (reply (en_host en) sk (setUnsubmit (en_host en) (en_stack en) jobid)) (\<lambda>sk.
             Ok (s, sk)))))"

section \<open>Execution servers\<close>

text \<open>
  \<open>checkServerStatus\<close> sends a request and waits up to \<open>SELECT_SECONDS\<close> for a byte of the answer. The
  answer is received into the same \<open>Msg\<close>.
\<close>

definition SELECT_SECONDS :: nat where [const_defs]: "SELECT_SECONDS = 5"

definition checkServerStatus :: "env \<Rightarrow> sock \<Rightarrow> (int \<times> sock) outcome" where
  "checkServerStatus en sk =
     (let pkg = setCheckExecServer (en_host en) (en_stack en)
      in bnd (sendMsg (en_host en) sk pkg) (\<lambda>(err, sk).
         if err = -1 then Ok (0, sk)
         else if err = 0 then Ok (0, sk)
         else (case sel_ev sk of
            [] \<Rightarrow> Wait
          | ev # evs \<Rightarrow>
              (let sk = sk\<lparr>sel_ev := evs\<rparr> in
               case ev of
                 SelErr \<Rightarrow> Ok (0, sk)
               | SelNever \<Rightarrow> Ok (0, sk)
               | SelReadable t \<Rightarrow>
                   if t \<le> SELECT_SECONDS then
                     bnd (recvMsg (en_host en) sk pkg) (\<lambda>(err, pkg, sk).
                       if err = -1 then Ok (0, sk)
                       else if err = 0 then Ok (0, sk)
                       else if getType pkg \<noteq> Type_u8 TYPE_CH_EXEC_SER_ACK then Ok (0, sk)
                       else Ok (1, sk))
                   else Ok (0, sk)))))"

text \<open>\<open>putJobBack\<close> up to and after the call of \<open>putJob\<close>. The job is read again when it is already
  back in the queue.\<close>

definition putJobBack_find :: "ptr \<Rightarrow> nat \<Rightarrow> server \<Rightarrow> server outcome" where
  "putJobBack_find job queue_idx s =
     bnd (mload job (job_mem s)) (\<lambda>jb.
     bnd (findJob (jb_id jb) s) (\<lambda>history_idx.
       if history_idx < 0 \<or> history_idx \<ge> int JOB_HISTORY_MAX
       then bnd (mfree job (job_mem s)) (\<lambda>jm. Ok (s\<lparr>job_mem := jm\<rparr>))
       else hist_set history_idx (\<lambda>jh. jh\<lparr>jh_queue_idx := of_nat queue_idx\<rparr>) s))"

definition putJobBack :: "ptr \<Rightarrow> server \<Rightarrow> server outcome" where
  "putJobBack job s =
     (let (queue_idx, s) = nextPut s
      in bnd (putJob_at queue_idx job s) (putJobBack_find job queue_idx))"

text \<open>The message for a job: interactive when the job has a client address.\<close>

definition jobMsg :: "env \<Rightarrow> Job_t \<Rightarrow> mem" where
  "jobMsg en job =
     (if jb_ipaddr job = 0
      then setFileExecNoInter (en_host en) (en_stack en) (jb_exec_file job) (jb_working_dir job)
             (jb_id job)
      else setFileExecInter (en_host en) (en_stack en) (jb_exec_file job) (jb_working_dir job)
             (jb_ipaddr job) (jb_port job) (jb_id job))"

definition sendJob :: "env \<Rightarrow> server \<Rightarrow> sock \<Rightarrow> (bool \<times> server \<times> sock) outcome" where
  "sendJob en s sk =
     (let (queue_idx, s) = nextGet s
      in bnd (takeJob_at queue_idx s) (\<lambda>(job, s).
         bnd (checkServerStatus en sk) (\<lambda>(ch_server, sk).
           if ch_server = 0 then bnd (putJobBack job s) (\<lambda>s. Ok (False, s, sk))
           else
             bnd (mload job (job_mem s)) (\<lambda>jb.
             bnd (sendMsg (en_host en) sk (jobMsg en jb)) (\<lambda>(err, sk).
               if err = -1 \<or> err = 0 then bnd (putJobBack job s) (\<lambda>s. Ok (False, s, sk))
               else bnd (mfree job (job_mem s)) (\<lambda>jm. Ok (True, s\<lparr>job_mem := jm\<rparr>, sk)))))))"

section \<open>Connections\<close>

text \<open>One message of a connection: the \<open>switch\<close> of \<open>attendClient\<close> and of \<open>attendExecServ\<close>. The
  boolean is \<open>flag\<close>, whether the loop goes on.\<close>

definition attendClient_msg ::
    "env \<Rightarrow> mem \<Rightarrow> server \<Rightarrow> sock \<Rightarrow> (bool \<times> server \<times> sock) outcome" where
  "attendClient_msg en pkg s sk =
     (case Type_of (getType pkg) of
        Some TYPE_SUB_NO_INTER \<Rightarrow> bnd (submitNoInter en pkg s sk) (\<lambda>(s, sk). Ok (True, s, sk))
      | Some TYPE_SUB_INTERACTIVE \<Rightarrow> bnd (submitInter en pkg s sk) (\<lambda>(s, sk). Ok (True, s, sk))
      | Some TYPE_JOBSTATE \<Rightarrow>
          bnd (jobState en (getJobID (en_host en) pkg) s sk) (\<lambda>sk. Ok (True, s, sk))
      | Some TYPE_QUESTATE \<Rightarrow> bnd (queueState en (getQueueID pkg) s sk) (\<lambda>sk. Ok (True, s, sk))
      | Some TYPE_UNSUB \<Rightarrow>
          bnd (unsubmit en (getJobID (en_host en) pkg) s sk) (\<lambda>(s, sk). Ok (True, s, sk))
      | Some TYPE_CLIENT_CLOSED \<Rightarrow> Ok (False, s, sk)
      | _ \<Rightarrow> Ok (True, s, sk))"

definition attendExecServ_msg ::
    "env \<Rightarrow> mem \<Rightarrow> server \<Rightarrow> sock \<Rightarrow> (bool \<times> server \<times> sock) outcome" where
  "attendExecServ_msg en pkg s sk =
     (case Type_of (getType pkg) of
        Some TYPE_JOB_REQ \<Rightarrow> sendJob en s sk
      | Some TYPE_JOB_RUN \<Rightarrow>
          bnd (changeStateJob (en_host en) pkg (en_time en) s) (\<lambda>s. Ok (True, s, sk))
      | Some TYPE_JOB_DONE \<Rightarrow>
          bnd (changeStateJob (en_host en) pkg (en_time en) s) (\<lambda>s. Ok (True, s, sk))
      | Some TYPE_JOB_SIG \<Rightarrow>
          bnd (changeStateJob (en_host en) pkg (en_time en) s) (\<lambda>s. Ok (True, s, sk))
      | Some TYPE_SERVER_CLOSED \<Rightarrow> Ok (False, s, sk)
      | _ \<Rightarrow> Ok (True, s, sk))"

lemma reply_keeps:
  "reply e sk pkg = Ok sk' \<Longrightarrow> rx_ev sk' = rx_ev sk \<and> rx_bytes sk' = rx_bytes sk \<and> sel_ev sk' = sel_ev sk"
  by (auto simp: reply_def bnd_eq_Ok_iff dest: sendMsg_keeps)

lemma newJob_keeps: "newJob en p s sk = Ok (s', sk') \<Longrightarrow> rx_ev sk' = rx_ev sk"
  by (auto simp: newJob_def newJob_record_def submittedResponse_def Let_def bnd_eq_Ok_iff
      dest: reply_keeps split: prod.splits)

lemma attendClient_msg_keeps:
  assumes "attendClient_msg en pkg s sk = Ok (flag, s', sk')"
  shows "rx_ev sk' = rx_ev sk"
  using assms
  by (auto simp: attendClient_msg_def submitNoInter_def submitInter_def jobState_def queueState_def
      unsubmit_def Let_def bnd_eq_Ok_iff dest: reply_keeps newJob_keeps
      split: prod.splits option.splits Type.splits)

lemma checkServerStatus_shrinks:
  assumes "checkServerStatus en sk = Ok (r, sk')"
  shows "length (rx_ev sk') \<le> length (rx_ev sk)"
proof -
  have "recvMsg e (sk1\<lparr>sel_ev := es\<rparr>) pkg = Ok (err, pkg', sk') \<Longrightarrow>
      length (rx_ev sk') < length (rx_ev sk1)" for e sk1 es pkg err pkg'
    using recvMsg_shrinks by fastforce
  then show ?thesis
    using assms
    by (fastforce simp: checkServerStatus_def Let_def bnd_eq_Ok_iff dest!: sendMsg_keeps
        split: if_splits list.splits sel_ev.splits prod.splits)
qed

lemma attendExecServ_msg_shrinks:
  assumes "attendExecServ_msg en pkg s sk = Ok (flag, s', sk')"
  shows "length (rx_ev sk') \<le> length (rx_ev sk)"
  using assms
  by (auto simp: attendExecServ_msg_def sendJob_def Let_def bnd_eq_Ok_iff
      dest!: checkServerStatus_shrinks sendMsg_keeps split: prod.splits option.splits Type.splits if_splits)

text \<open>
  The connection loops, from the \<open>n\<close>-th message on, with the environment of each message. They end
  when the flag is cleared or \<open>recvMsg\<close> does not return 1; every message consumes an event of the
  socket.
\<close>

function attendClient ::
    "(nat \<Rightarrow> env) \<Rightarrow> nat \<Rightarrow> mem \<Rightarrow> server \<Rightarrow> sock \<Rightarrow> (server \<times> sock) outcome" where
  "attendClient ens n pkg s sk =
     bnd (recvMsg (en_host (ens n)) sk pkg) (\<lambda>(err, pkg, sk).
       if err = 1 then
         bnd (attendClient_msg (ens n) pkg s sk) (\<lambda>(flag, s, sk).
           if flag then attendClient ens (Suc n) pkg s sk else Ok (s, sk))
       else Ok (s, sk))"
  by pat_completeness auto
termination
  by (relation "measure (\<lambda>(ens, n, pkg, s, sk). length (rx_ev sk))")
    (auto dest!: recvMsg_shrinks attendClient_msg_keeps)

function attendExecServ ::
    "(nat \<Rightarrow> env) \<Rightarrow> nat \<Rightarrow> mem \<Rightarrow> server \<Rightarrow> sock \<Rightarrow> (server \<times> sock) outcome" where
  "attendExecServ ens n pkg s sk =
     bnd (recvMsg (en_host (ens n)) sk pkg) (\<lambda>(err, pkg, sk).
       if err = 1 then
         bnd (attendExecServ_msg (ens n) pkg s sk) (\<lambda>(flag, s, sk).
           if flag then attendExecServ ens (Suc n) pkg s sk else Ok (s, sk))
       else Ok (s, sk))"
  by pat_completeness auto
termination
  by (relation "measure (\<lambda>(ens, n, pkg, s, sk). length (rx_ev sk))")
    (auto dest!: recvMsg_shrinks attendExecServ_msg_shrinks)

declare attendClient.simps [simp del] attendExecServ.simps [simp del]

end
