(* ===== verification/Handlers.thy ===== *)
theory Handlers
  imports MainServer
begin

text \<open>
  Correctness of the request handlers of \<open>main_server.c\<close>. \<open>server_inv held\<close> is the invariant of the
  server between two critical sections, where \<open>held\<close> are the job blocks that some thread has a
  pointer to and that are in no queue. Each critical section has one lemma that says what it does to
  the invariant; the properties are about whole handlers.
\<close>

section \<open>Invariant\<close>

abbreviation q0 :: "server \<Rightarrow> Queue_t" where
  "q0 s \<equiv> queue s ! 0"

definition server_inv :: "ptr set \<Rightarrow> server \<Rightarrow> bool" where
  "server_inv held s \<longleftrightarrow>
     hist_inv s \<and> length (queue s) = NUM_QUEUE_MAX \<and> queue_inv (q0 s) \<and> heap_ok (job_mem s) \<and>
     distinct (qlist (q0 s)) \<and> set (qlist (q0 s)) \<inter> held = {} \<and>
     (\<forall>p. live (job_mem s) p \<longleftrightarrow> p \<in> set (qlist (q0 s)) \<union> held) \<and>
     (\<forall>j jh. lookup s j = Some jh \<longrightarrow> unat (jh_queue_idx jh) < NUM_QUEUE_MAX)"

text \<open>The history depends on its own fields only.\<close>

lemma filled_frame [simp]:
  "filled (s\<lparr>job_mem := x\<rparr>) = filled s" "filled (s\<lparr>queue := y\<rparr>) = filled s"
  "filled (s\<lparr>queue2put := n\<rparr>) = filled s" "filled (s\<lparr>queue2get := n\<rparr>) = filled s"
  "filled (s\<lparr>hist_mem := z\<rparr>) = filled s"
  by (simp_all add: filled_def)

lemma lookup_frame [simp]:
  "lookup (s\<lparr>job_mem := x\<rparr>) = lookup s" "lookup (s\<lparr>queue := y\<rparr>) = lookup s"
  "lookup (s\<lparr>queue2put := n\<rparr>) = lookup s" "lookup (s\<lparr>queue2get := n\<rparr>) = lookup s"
  by (simp_all add: lookup_def fun_eq_iff)

lemma hist_inv_frame [simp]:
  "hist_inv (s\<lparr>job_mem := x\<rparr>) = hist_inv s" "hist_inv (s\<lparr>queue := y\<rparr>) = hist_inv s"
  "hist_inv (s\<lparr>queue2put := n\<rparr>) = hist_inv s" "hist_inv (s\<lparr>queue2get := n\<rparr>) = hist_inv s"
  by (simp_all add: hist_inv_def)

lemma hist_cong:
  assumes "job_array s = job_array t" "history_putidx s = history_putidx t" "hist_mem s = hist_mem t"
  shows "hist_inv s = hist_inv t" "lookup s = lookup t"
  using assms by (simp_all add: hist_inv_def lookup_def filled_def fun_eq_iff)

lemma server_inv_counters [simp]:
  "server_inv held (s\<lparr>queue2put := n\<rparr>) = server_inv held s"
  "server_inv held (s\<lparr>queue2get := n\<rparr>) = server_inv held s"
  by (simp_all add: server_inv_def)

lemma server_invD:
  assumes "server_inv held s"
  shows "hist_inv s" "length (queue s) = 1" "queue_inv (q0 s)" "heap_ok (job_mem s)"
    "distinct (qlist (q0 s))" "set (qlist (q0 s)) \<inter> held = {}"
    "live (job_mem s) p \<longleftrightarrow> p \<in> set (qlist (q0 s)) \<or> p \<in> held"
    "lookup s j = Some jh \<Longrightarrow> unat (jh_queue_idx jh) = 0"
  using assms by (auto simp: server_inv_def NUM_QUEUE_MAX_def)

lemma nextPut_eq: "nextPut s = (0, s\<lparr>queue2put := queue2put s + 1\<rparr>)"
  by (simp add: nextPut_def NUM_QUEUE_MAX_def)

lemma nextGet_eq: "nextGet s = (0, s\<lparr>queue2get := queue2get s + 1\<rparr>)"
  by (simp add: nextGet_def NUM_QUEUE_MAX_def)

section \<open>Critical sections\<close>

text \<open>Allocating and freeing a job block.\<close>

lemma alloc_job_inv:
  assumes "server_inv held s" "malloc v (job_mem s) = (p, jm)"
  shows "server_inv (insert p held) (s\<lparr>job_mem := jm\<rparr>)" "mload p jm = Ok v"
    "p \<notin> held" "p \<notin> set (qlist (q0 s))" "\<And>q. q \<noteq> p \<Longrightarrow> mload q jm = mload q (job_mem s)"
proof -
  have new: "\<not> live (job_mem s) p"
    using heap.alloc_fresh [OF _ assms(2)] assms(1) by (simp add: server_inv_def)
  then show "p \<notin> held" "p \<notin> set (qlist (q0 s))" using server_invD(7) [OF assms(1)] by auto
  then show "server_inv (insert p held) (s\<lparr>job_mem := jm\<rparr>)"
    using assms(1) heap.alloc_wf [OF _ assms(2)] heap.valid_alloc [OF assms(2)]
    by (auto simp: server_inv_def)
  show "mload p jm = Ok v" "\<And>q. q \<noteq> p \<Longrightarrow> mload q jm = mload q (job_mem s)"
    using heap.alloc_fetch [OF assms(2)] by simp_all
qed

lemma free_held_inv:
  assumes "server_inv held s" "p \<in> held"
  shows "\<exists>jm. mfree p (job_mem s) = Ok jm \<and> server_inv (held - {p}) (s\<lparr>job_mem := jm\<rparr>) \<and>
           (\<forall>q. q \<noteq> p \<longrightarrow> mload q jm = mload q (job_mem s))"
proof -
  have lv: "live (job_mem s) p" using server_invD(7) [OF assms(1)] assms(2) by blast
  then obtain jm where jm: "mfree p (job_mem s) = Ok jm" using heap.release_ok by blast
  have "server_inv (held - {p}) (s\<lparr>job_mem := jm\<rparr>)"
    using assms heap.valid_release [OF lv jm] heap.release_wf [OF jm]
    by (auto simp: server_inv_def)
  then show ?thesis using jm heap.release_frame [OF jm] by blast
qed

lemma store_held_inv:
  assumes "server_inv held s" "p \<in> held"
  shows "\<exists>jm. mstore p v (job_mem s) = Ok jm \<and> server_inv held (s\<lparr>job_mem := jm\<rparr>) \<and>
           mload p jm = Ok v \<and> (\<forall>q. q \<noteq> p \<longrightarrow> mload q jm = mload q (job_mem s))"
proof -
  have lv: "live (job_mem s) p" using server_invD(7) [OF assms(1)] assms(2) by blast
  then obtain jm where jm: "mstore p v (job_mem s) = Ok jm"
    using heap.update_ok [of "job_mem s" p v] by blast
  have "server_inv held (s\<lparr>job_mem := jm\<rparr>)"
    using assms heap.valid_update [OF jm lv] heap.update_wf [OF jm] by (auto simp: server_inv_def)
  then show ?thesis using jm heap.update_fetch [OF jm] by auto
qed

text \<open>Putting and taking move a block between the queue and its holder.\<close>

lemma server_inv_queue:
  assumes "server_inv held s" "queue_inv q" "distinct (qlist q)" "set (qlist q) \<inter> held' = {}"
    and "set (qlist q) \<union> held' = set (qlist (q0 s)) \<union> held"
  shows "server_inv held' (s\<lparr>queue := (queue s)[0 := q]\<rparr>)"
  using assms by (auto simp: server_inv_def NUM_QUEUE_MAX_def)

lemma putJob_at_full:
  assumes "server_inv held s" "length (qlist (q0 s)) = MAX_JOBS_QUEUE"
  shows "putJob_at 0 p s = Wait"
  using jq.put_wait [OF server_invD(3) [OF assms(1)] assms(2)] by (simp add: putJob_at_def)

lemma putJob_at_room:
  assumes "server_inv held s" "p \<in> held" "length (qlist (q0 s)) < MAX_JOBS_QUEUE"
    and "0 < headroom (q0 s)"
  shows "\<exists>q. putJob_at 0 p s = Ok (s\<lparr>queue := (queue s)[0 := q]\<rparr>) \<and> queue_inv q \<and>
           qlist q = qlist (q0 s) @ [p] \<and> headroom q = headroom (q0 s) - 1 \<and>
           server_inv (held - {p}) (s\<lparr>queue := (queue s)[0 := q]\<rparr>)"
proof -
  obtain q where q: "putJob p (q0 s) = Ok q" "queue_inv q" "qlist q = qlist (q0 s) @ [p]"
    "headroom q = headroom (q0 s) - 1"
    using jq.put_ok [OF server_invD(3) [OF assms(1)] assms(3,4)] by blast
  have "p \<notin> set (qlist (q0 s))" using server_invD(6) [OF assms(1)] assms(2) by blast
  then have "server_inv (held - {p}) (s\<lparr>queue := (queue s)[0 := q]\<rparr>)"
    using q server_invD(5,6) [OF assms(1)] assms(2)
    by (intro server_inv_queue [OF assms(1)]) auto
  with q show ?thesis by (auto simp: putJob_at_def)
qed

lemma takeJob_at_empty:
  assumes "server_inv held s" "qlist (q0 s) = []"
  shows "takeJob_at 0 s = Wait"
  using jq.take_wait [OF server_invD(3) [OF assms(1)] assms(2)] by (simp add: takeJob_at_def)

lemma takeJob_at_some:
  assumes "server_inv held s" "qlist (q0 s) = p # ps"
  shows "\<exists>q. takeJob_at 0 s = Ok (p, s\<lparr>queue := (queue s)[0 := q]\<rparr>) \<and> queue_inv q \<and>
           qlist q = ps \<and> headroom q = headroom (q0 s) \<and> p \<notin> held \<and>
           server_inv (insert p held) (s\<lparr>queue := (queue s)[0 := q]\<rparr>)"
proof -
  obtain q where q: "takeJob (q0 s) = Ok (p, q)" "queue_inv q" "qlist q = ps"
    "headroom q = headroom (q0 s)"
    using jq.take_ok [OF server_invD(3) [OF assms(1)] assms(2)] by blast
  have "server_inv (insert p held) (s\<lparr>queue := (queue s)[0 := q]\<rparr>)"
    using q server_invD(5,6) [OF assms(1)] assms(2)
    by (intro server_inv_queue [OF assms(1)]) auto
  then show ?thesis using q server_invD(6) [OF assms(1)] assms(2) by (auto simp: takeJob_at_def)
qed

text \<open>Updating a record keeps the invariant when it keeps its id and its queue.\<close>

lemma server_inv_hist:
  assumes "server_inv held s" "hist_inv (s\<lparr>hist_mem := h\<rparr>)"
    and "\<And>j jh. lookup (s\<lparr>hist_mem := h\<rparr>) j = Some jh \<Longrightarrow> unat (jh_queue_idx jh) < NUM_QUEUE_MAX"
  shows "server_inv held (s\<lparr>hist_mem := h\<rparr>)"
  using assms by (simp add: server_inv_def)

lemma amend_inv:
  assumes "server_inv held s" "\<And>x. jh_id (f x) = jh_id x"
    and "\<And>x. unat (jh_queue_idx x) = 0 \<Longrightarrow> unat (jh_queue_idx (f x)) = 0"
  shows "\<exists>h. amend findJob hist_set j f s = Ok (s\<lparr>hist_mem := h\<rparr>) \<and>
           server_inv held (s\<lparr>hist_mem := h\<rparr>) \<and>
           lookup (s\<lparr>hist_mem := h\<rparr>) =
             (case lookup s j of None \<Rightarrow> lookup s | Some x \<Rightarrow> (lookup s)(j \<mapsto> f x)) \<and>
           (\<forall>p. live h p \<longleftrightarrow> live (hist_mem s) p)"
proof (cases "lookup s j")
  case None
  have "amend findJob hist_set j f s = Ok s"
    using hist.find_none [OF server_invD(1) [OF assms(1)] None] by (simp add: amend_def)
  then show ?thesis using None assms(1) by (intro exI [of _ "hist_mem s"]) simp
next
  case (Some x)
  obtain h where h: "hist_set (int (id_slot j)) f s = Ok (s\<lparr>hist_mem := h\<rparr>)"
    "hist_inv (s\<lparr>hist_mem := h\<rparr>)" "lookup (s\<lparr>hist_mem := h\<rparr>) = (lookup s)(j \<mapsto> f x)"
    "\<forall>p. live h p \<longleftrightarrow> live (hist_mem s) p"
    using hist_set_found [OF server_invD(1) [OF assms(1)] Some, of f] assms(2) by auto
  have "server_inv held (s\<lparr>hist_mem := h\<rparr>)"
    using server_invD(8) [OF assms(1)] Some assms(3)
    by (intro server_inv_hist [OF assms(1) h(2)]) (auto simp: h(3) NUM_QUEUE_MAX_def split: if_splits)
  moreover have "amend findJob hist_set j f s = Ok (s\<lparr>hist_mem := h\<rparr>)"
    using h(1) Some findJob_eq [OF server_invD(1) [OF assms(1)], of j]
    by (simp add: amend_def JOB_HISTORY_MAX_def less_imp_le)
  ultimately show ?thesis using h Some by (intro exI [of _ h]) simp
qed

section \<open>Recording a new job\<close>

lemma hist_inv_ext:
  assumes "hist_inv s" "heap_ok h"
    and "\<And>i. i < filled s \<Longrightarrow> mload (job_array s ! i) h = mload (job_array s ! i) (hist_mem s)"
  shows "hist_inv (s\<lparr>hist_mem := h\<rparr>)" "lookup (s\<lparr>hist_mem := h\<rparr>) = lookup s"
  using assms by (auto simp: hist_inv_def lookup_def fun_eq_iff)

lemma hist_array_cases:
  assumes "hist_inv s" "p \<in> set (job_array s)"
  shows "p = NULL \<or> live (hist_mem s) p"
proof -
  obtain i where i: "i < 10" "p = job_array s ! i"
    using assms hist_inv_len [OF assms(1)] by (metis in_set_conv_nth)
  then show ?thesis
    using hist_inv_live [OF assms(1), of i] hist_inv_null [OF assms(1), of i]
    by (cases "i < filled s") auto
qed

text \<open>The block \<open>newJob\<close> allocates for the record and fills in.\<close>

lemma new_hist_block:
  assumes "hist_inv s" "malloc v (hist_mem s) = (p, hm)"
  shows "\<exists>h. mload p hm = Ok v \<and> mstore p w hm = Ok h \<and> hist_inv (s\<lparr>hist_mem := h\<rparr>) \<and>
           lookup (s\<lparr>hist_mem := h\<rparr>) = lookup s \<and> mload p h = Ok w \<and> p \<notin> set (job_array s) \<and>
           (\<forall>q. live h q \<longleftrightarrow> q = p \<or> live (hist_mem s) q)"
proof -
  have ld: "mload p hm = Ok v" using heap.alloc_fetch [OF assms(2)] by simp
  then have lv: "live hm p" using heap.fetch_iff by blast
  then obtain h where h: "mstore p w hm = Ok h" using heap.update_ok [of hm p w] by blast
  have new: "\<not> live (hist_mem s) p" "p \<noteq> NULL"
    using heap.alloc_fresh [OF _ assms(2)] assms by (auto simp: hist_inv_def malloc_def)
  have "heap_ok h" using heap.update_wf [OF h] heap.alloc_wf [OF _ assms(2)] assms(1)
    by (simp add: hist_inv_def)
  moreover have "mload (job_array s ! i) h = mload (job_array s ! i) (hist_mem s)" if "i < filled s" for i
    using heap.update_fetch [OF h] heap.alloc_fetch [OF assms(2)] hist_inv_live [OF assms(1) that]
      new(1) by auto
  ultimately show ?thesis
    using ld h hist_inv_ext [OF assms(1), of h] heap.update_fetch [OF h, of p]
      hist_array_cases [OF assms(1)] new heap.valid_update [OF h lv] heap.valid_alloc [OF assms(2)]
    by (intro exI [of _ h]) auto
qed

definition new_hist :: "env \<Rightarrow> Job_t \<Rightarrow> u16 \<Rightarrow> JobHistory_t" where
  "new_hist en job jid =
     (setParamsNewJobHistory (en_hist en) 0 (jb_ipaddr job) (en_time en))\<lparr>jh_id := jid\<rparr>"

lemma newJob_record_ok:
  assumes inv: "server_inv held s" and held: "p \<in> held" and job: "mload p (job_mem s) = Ok job"
    and room: "unat (history_putidx s) < 2 ^ 32 - 1"
    and jid: "jid = (ucast (history_putidx s) :: u16)"
    and resp: "submittedResponse en jid sk = Ok sk'"
  shows "\<exists>s' ph. newJob_record en p s sk = Ok (0, s', sk') \<and> server_inv held s' \<and>
           queue s' = queue s \<and> history_putidx s' = history_putidx s + 1 \<and>
           lookup s' = (\<lambda>k. if k = jid then Some (new_hist en job jid)
                           else if id_slot k = id_slot jid then None else lookup s k) \<and>
           mload p (job_mem s') = Ok (job\<lparr>jb_id := jid\<rparr>) \<and>
           (\<forall>q. q \<noteq> p \<longrightarrow> mload q (job_mem s') = mload q (job_mem s)) \<and>
           job_array s' = (job_array s)[id_slot jid := ph] \<and> ph \<notin> set (job_array s) \<and>
           (\<forall>q. live (hist_mem s') q \<longleftrightarrow> q = ph \<or> live (hist_mem s) q \<and>
              \<not> (10 \<le> unat jid \<and> q = job_array s ! id_slot jid))"
proof -
  obtain ph hm where al: "malloc (en_hist en) (hist_mem s) = (ph, hm)" by fastforce
  let ?w = "setParamsNewJobHistory (en_hist en) 0 (jb_ipaddr job) (en_time en)"
  obtain h where h: "mload ph hm = Ok (en_hist en)" "mstore ph ?w hm = Ok h"
    "hist_inv (s\<lparr>hist_mem := h\<rparr>)" "lookup (s\<lparr>hist_mem := h\<rparr>) = lookup s" "mload ph h = Ok ?w"
    "ph \<notin> set (job_array s)" "\<forall>q. live h q \<longleftrightarrow> q = ph \<or> live (hist_mem s) q"
    using new_hist_block [OF server_invD(1) [OF inv] al, of ?w] by blast
  let ?s1 = "s\<lparr>queue2put := queue2put s + 1, hist_mem := h\<rparr>"
  have s1: "hist_inv ?s1" "lookup ?s1 = lookup s"
    using h(3,4) hist_cong [of ?s1 "s\<lparr>hist_mem := h\<rparr>"] by simp_all
  have pre: "mload ph (hist_mem ?s1) = Ok ?w" "ph \<notin> set (job_array ?s1)"
    "unat (history_putidx ?s1) < 2 ^ 32 - 1" "jid = ucast (history_putidx ?s1)"
    using h room jid by simp_all
  from registerJob_ok [OF s1(1) pre] obtain s2 h2 where s2:
    "registerJob ph ?s1 = Ok (jid, s2)" "hist_inv s2"
    "s2 = ?s1\<lparr>history_putidx := history_putidx s + 1, hist_mem := h2,
            job_array := (job_array s)[id_slot jid := ph]\<rparr>"
    "lookup s2 = (\<lambda>k. if k = jid then Some (new_hist en job jid)
                      else if id_slot k = id_slot jid then None else lookup s k)"
    "\<forall>q. live h2 q \<longleftrightarrow> live h q \<and> \<not> (10 \<le> unat jid \<and> q = job_array s ! id_slot jid)"
    unfolding s1(2) new_hist_def by auto
  have f2: "queue s2 = queue s" "job_mem s2 = job_mem s" "hist_mem s2 = h2"
    "history_putidx s2 = history_putidx s + 1" "job_array s2 = (job_array s)[id_slot jid := ph]"
    by (simp_all add: s2(3))
  have "server_inv held s2"
    using inv s2(2) server_invD(8) [OF inv]
    by (auto simp: server_inv_def s2(4) f2 NUM_QUEUE_MAX_def new_hist_def setParamsNewJobHistory_def
        split: if_splits)
  from store_held_inv [OF this held, of "job\<lparr>jb_id := jid\<rparr>"] obtain jm where jm:
    "mstore p (job\<lparr>jb_id := jid\<rparr>) (job_mem s) = Ok jm" "server_inv held (s2\<lparr>job_mem := jm\<rparr>)"
    "mload p jm = Ok (job\<lparr>jb_id := jid\<rparr>)" "\<forall>q. q \<noteq> p \<longrightarrow> mload q jm = mload q (job_mem s)"
    by (auto simp: f2)
  have ja: "job_array s ! id_slot jid \<noteq> ph"
    using h(6) hist_inv_len [OF server_invD(1) [OF inv]] by (metis id_slot_less nth_mem)
  have "newJob_record en p s sk = Ok (0, s2\<lparr>job_mem := jm\<rparr>, sk')"
    using al h(1,2) job s2(1) resp jm(1) f2(2)
    by (simp add: newJob_record_def nextPut_eq)
  then show ?thesis
    using jm s2(4,5) f2 h(6,7) ja by (intro exI [of _ "s2\<lparr>job_mem := jm\<rparr>"] exI [of _ ph]) auto
qed

section \<open>Replies\<close>

text \<open>Each answer is the encoding of a packet.\<close>

lemmas answer_encode =
  encode.simps(3,5,7,9,12,20) [symmetric]

lemma reply_ok:
  assumes "packet_size p \<le> tx_credit sk"
  shows "\<exists>sk'. reply e sk (encode e p m) = Ok sk' \<and> tx_bytes sk' = tx_bytes sk @ wire_of p \<and>
           rx_bytes sk' = rx_bytes sk \<and> tx_credit sk \<le> tx_credit sk' + packet_size p"
  using chan.send_ok [OF assms, of e m] by (auto simp: reply_def)

lemma reply_quiet:
  assumes "quiet sk"
  shows "reply e sk (encode e p m) = Wait \<or> (\<exists>sk'. reply e sk (encode e p m) = Ok sk' \<and> quiet sk')"
  using sendMsg_quiet [OF assms, of e p m] by (auto simp: reply_def)

section \<open>Submission\<close>

text \<open>A submission that finds room ends with the job at the end of the queue.\<close>

lemma newJob_ok:
  assumes inv: "server_inv held s" and held: "p \<in> held" and job: "mload p (job_mem s) = Ok job"
    and room: "unat (history_putidx s) < 2 ^ 32 - 1" "length (qlist (q0 s)) < MAX_JOBS_QUEUE"
      "0 < headroom (q0 s)"
    and jid: "jid = (ucast (history_putidx s) :: u16)"
    and resp: "submittedResponse en jid sk = Ok sk'"
  shows "\<exists>s'. newJob en p s sk = Ok (s', sk') \<and> server_inv (held - {p}) s' \<and>
           qlist (q0 s') = qlist (q0 s) @ [p] \<and> mload p (job_mem s') = Ok (job\<lparr>jb_id := jid\<rparr>) \<and>
           history_putidx s' = history_putidx s + 1 \<and> headroom (q0 s') = headroom (q0 s) - 1 \<and>
           (\<forall>q. q \<noteq> p \<longrightarrow> mload q (job_mem s') = mload q (job_mem s)) \<and>
           lookup s' = (\<lambda>k. if k = jid then Some (new_hist en job jid)
                           else if id_slot k = id_slot jid then None else lookup s k)"
proof -
  obtain s1 where s1: "newJob_record en p s sk = Ok (0, s1, sk')" "server_inv held s1"
    "queue s1 = queue s" "history_putidx s1 = history_putidx s + 1" "mload p (job_mem s1) = Ok (job\<lparr>jb_id := jid\<rparr>)"
    "\<forall>q. q \<noteq> p \<longrightarrow> mload q (job_mem s1) = mload q (job_mem s)"
    "lookup s1 = (\<lambda>k. if k = jid then Some (new_hist en job jid)
                     else if id_slot k = id_slot jid then None else lookup s k)"
    using newJob_record_ok [OF inv held job room(1) jid resp] by blast
  obtain q where q: "putJob_at 0 p s1 = Ok (s1\<lparr>queue := (queue s1)[0 := q]\<rparr>)"
    "qlist q = qlist (q0 s) @ [p]" "headroom q = headroom (q0 s) - 1"
    "server_inv (held - {p}) (s1\<lparr>queue := (queue s1)[0 := q]\<rparr>)"
    using putJob_at_room [OF s1(2) held] room s1(3) by auto
  have "length (queue s1) = 1" using server_invD(2) [OF s1(2)] .
  then show ?thesis
    using s1 q by (intro exI [of _ "s1\<lparr>queue := (queue s1)[0 := q]\<rparr>"]) (simp add: newJob_def)
qed

text \<open>What a submission message asks for, and the job block the server builds from it.\<close>

definition submission :: "packet \<Rightarrow> u8 list \<Rightarrow> u8 list \<Rightarrow> u32 \<Rightarrow> u16 \<Rightarrow> bool" where
  "submission pk f d ip port \<longleftrightarrow>
     pk = SubNoInter f d \<and> ip = 0 \<and> port = 0 \<or> pk = SubInteractive f d ip port"

definition job_of :: "endian \<Rightarrow> u8 list \<Rightarrow> u8 list \<Rightarrow> u32 \<Rightarrow> u16 \<Rightarrow> u16 \<Rightarrow> Job_t" where
  "job_of e f d ip port jid =
     \<lparr>jb_id = jid, jb_port = htons e port, jb_ipaddr = htonl e ip,
      jb_exec_file = strncpy_bytes SZ_PATH f, jb_working_dir = strncpy_bytes SZ_PATH d\<rparr>"

lemma htonl_0 [simp]: "htonl e 0 = 0"
  by (cases e) (simp_all add: htonl_def bswap32_def mk32_def mk16_def lo8_def hi8_def lo16_def hi16_def)

lemma htons_0 [simp]: "htons e 0 = 0"
  by (cases e) (simp_all add: htons_def mk16_def lo8_def hi8_def)

text \<open>The dispatch of a submission: a block with the fields of the message is handed to
  \<open>newJob\<close>.\<close>

lemma submit_dispatch:
  assumes "submission pk f d ip port" "e = en_host en"
    and "malloc (job_of e f d ip port (jb_id (en_job en))) (job_mem s) = (p, jm)"
  shows "attendClient_msg en (encode e pk buf) s sk =
           bnd (newJob en p (s\<lparr>job_mem := jm\<rparr>) sk) (\<lambda>(s, sk). Ok (True, s, sk))"
proof -
  have upd: "(en_job en)\<lparr>jb_exec_file := a, jb_working_dir := b, jb_port := c, jb_ipaddr := x\<rparr> =
      \<lparr>jb_id = jb_id (en_job en), jb_port = c, jb_ipaddr = x, jb_exec_file = a, jb_working_dir = b\<rparr>"
    for a b c x
    by (cases "en_job en") simp
  show ?thesis
    using assms
    by (auto simp: submission_def attendClient_msg_def Type_of_encode submitNoInter_def submitInter_def
        upd job_of_def get_submission NUM_PATH_def Let_def simp del: encode.simps Type_u8.simps)
qed

section \<open>Abstract specification\<close>

text \<open>
  The service seen from outside: what is known about each job id, the queued jobs in order, and the
  number of jobs recorded so far. \<open>client_spec\<close> is what one request does to it and the packets it
  answers with; \<open>exec_spec\<close> what one message of an execution server does.
\<close>

record service =
  sv_hist :: "u16 \<rightharpoonup> JobHistory_t"
  sv_queue :: "Job_t list"
  sv_count :: u32

definition represents :: "server \<Rightarrow> service \<Rightarrow> bool" where
  "represents s a \<longleftrightarrow>
     lookup s = sv_hist a \<and> load_all (qlist (q0 s)) (job_mem s) = Ok (sv_queue a) \<and>
     history_putidx s = sv_count a"

definition sv_submit :: "env \<Rightarrow> u8 list \<Rightarrow> u8 list \<Rightarrow> u32 \<Rightarrow> u16 \<Rightarrow> service \<Rightarrow> service \<times> packet list" where
  "sv_submit en f d ip port a =
     (let jid = ucast (sv_count a);
          job = job_of (en_host en) f d ip port jid
      in (\<lparr>sv_hist = (\<lambda>k. if k = jid then Some (new_hist en job jid)
                         else if id_slot k = id_slot jid then None else sv_hist a k),
           sv_queue = sv_queue a @ [job], sv_count = sv_count a + 1\<rparr>, [SubResp jid]))"

definition sv_unsubmit :: "u16 \<Rightarrow> service \<Rightarrow> service \<times> packet list" where
  "sv_unsubmit j a =
     (case sv_hist a j of
        None \<Rightarrow> (a, [BadParams])
      | Some jh \<Rightarrow>
          if jh_state jh \<noteq> JOB_STATE_u8 STATE_WAIT then (a, [BadParams])
          else (a\<lparr>sv_hist := (sv_hist a)(j \<mapsto> jh\<lparr>jh_state := JOB_STATE_u8 STATE_UNSUBMITED\<rparr>),
                  sv_queue := takeWhile (\<lambda>b. jb_id b \<noteq> j) (sv_queue a) @
                              tl (dropWhile (\<lambda>b. jb_id b \<noteq> j) (sv_queue a))\<rparr>, [UnsubResp j]))"

fun client_spec :: "env \<Rightarrow> packet \<Rightarrow> service \<Rightarrow> service \<times> packet list" where
  "client_spec en (SubNoInter f d) a = sv_submit en f d 0 0 a"
| "client_spec en (SubInteractive f d ip port) a = sv_submit en f d ip port a"
| "client_spec en (JobStateReq j) a =
     (a, [case sv_hist a j of
            None \<Rightarrow> BadParams
          | Some jh \<Rightarrow> JobStateResp j (jh_state jh) (jh_exit_status jh)])"
| "client_spec en (QueStateReq q) a =
     (a, [if q = 0 then QueStateResp q (QUEUE_STATE_u8
            (if length (sv_queue a) = MAX_JOBS_QUEUE then STATE_FULL else STATE_AVAIL))
          else BadParams])"
| "client_spec en (Unsub j) a = sv_unsubmit j a"
| "client_spec en p a = (a, [])"

text \<open>The requests the code serves as specified: a submission needs room in the queue and in the
  counters; a withdrawal needs the job in the queue and the occupied slots not to wrap.\<close>

fun servable :: "packet \<Rightarrow> server \<Rightarrow> service \<Rightarrow> bool" where
  "servable (SubNoInter f d) s a =
     (length (sv_queue a) < MAX_JOBS_QUEUE \<and> 0 < headroom (q0 s) \<and> unat (sv_count a) < 2 ^ 32 - 1)"
| "servable (SubInteractive f d ip port) s a =
     (length (sv_queue a) < MAX_JOBS_QUEUE \<and> 0 < headroom (q0 s) \<and> unat (sv_count a) < 2 ^ 32 - 1)"
| "servable (Unsub j) s a =
     (case sv_hist a j of
        None \<Rightarrow> True
      | Some jh \<Rightarrow> jh_state jh = JOB_STATE_u8 STATE_WAIT \<longrightarrow>
          j \<in> jb_id ` set (sv_queue a) \<and> slot (get_idx (q0 s)) < slot (put_idx (q0 s)))"
| "servable p s a = True"

lemma load_all_append:
  "load_all (ps @ qs) h = bnd (load_all ps h) (\<lambda>xs. bnd (load_all qs h) (\<lambda>ys. Ok (xs @ ys)))"
proof (induction ps)
  case Nil
  show ?case by (cases "load_all qs h") simp_all
next
  case (Cons p ps)
  then show ?case
    by (cases "mload p h"; cases "load_all ps h"; cases "load_all qs h") simp_all
qed

lemma load_all_cong:
  "(\<And>p. p \<in> set ps \<Longrightarrow> mload p h = mload p h') \<Longrightarrow> load_all ps h = load_all ps h'"
  by (induction ps) simp_all

lemma load_all_length: "load_all ps h = Ok xs \<Longrightarrow> length xs = length ps"
  by (induction ps arbitrary: xs) (auto simp: bnd_eq_Ok_iff)

lemma load_all_live:
  "(\<And>p. p \<in> set ps \<Longrightarrow> live h p) \<Longrightarrow> \<exists>xs. load_all ps h = Ok xs"
  by (induction ps) (force simp: heap.fetch_iff bnd_eq_Ok_iff)+

lemma represents_ex:
  assumes "server_inv held s"
  obtains a where "represents s a"
proof -
  obtain xs where "load_all (qlist (q0 s)) (job_mem s) = Ok xs"
    using load_all_live [of "qlist (q0 s)" "job_mem s"] server_invD(7) [OF assms] by blast
  then have "represents s \<lparr>sv_hist = lookup s, sv_queue = xs, sv_count = history_putidx s\<rparr>"
    by (simp add: represents_def)
  then show ?thesis using that by blast
qed

lemma represents_length: "represents s a \<Longrightarrow> length (qlist (q0 s)) = length (sv_queue a)"
  using load_all_length by (fastforce simp: represents_def)

section \<open>Refinement of the client requests\<close>

text \<open>The largest answer.\<close>

definition answer_max :: nat where
  "answer_max = sizeof_Header + sizeof_Job_State"

definition served ::
    "env \<Rightarrow> packet \<Rightarrow> mem \<Rightarrow> server \<Rightarrow> sock \<Rightarrow> service \<Rightarrow> bool" where
  "served en pk buf s sk a \<longleftrightarrow>
     (\<exists>s' sk'. attendClient_msg en (encode (en_host en) pk buf) s sk = Ok (pk \<noteq> ClientClosed, s', sk') \<and>
        server_inv {} s' \<and> represents s' (fst (client_spec en pk a)) \<and>
        tx_bytes sk' = tx_bytes sk @ concat (map wire_of (snd (client_spec en pk a))) \<and>
        rx_bytes sk' = rx_bytes sk \<and> rx_ev sk' = rx_ev sk \<and>
        tx_credit sk \<le> tx_credit sk' + answer_max \<and> headroom (q0 s) \<le> Suc (headroom (q0 s')))"

lemma answer_ok:
  assumes "answer_max \<le> tx_credit sk" "packet_size p \<le> answer_max"
  shows "\<exists>sk'. reply e sk (encode e p m) = Ok sk' \<and> tx_bytes sk' = tx_bytes sk @ wire_of p \<and>
           rx_bytes sk' = rx_bytes sk \<and> rx_ev sk' = rx_ev sk \<and> tx_credit sk \<le> tx_credit sk' + answer_max"
proof -
  obtain sk' where "reply e sk (encode e p m) = Ok sk'" "tx_bytes sk' = tx_bytes sk @ wire_of p"
    "tx_credit sk \<le> tx_credit sk' + packet_size p"
    using reply_ok [of p sk e m] assms by auto
  then show ?thesis using reply_keeps [of e sk "encode e p m" sk'] assms(2) by auto
qed

lemma answer_sizes:
  "packet_size (SubResp j) \<le> answer_max" "packet_size (JobStateResp j st x) \<le> answer_max"
  "packet_size (QueStateResp q st) \<le> answer_max" "packet_size (UnsubResp j) \<le> answer_max"
  "packet_size BadParams \<le> answer_max"
  by (simp_all add: answer_max_def layout)

lemma served_submission:
  assumes sub: "submission pk f d ip port" and inv: "server_inv {} s" and rep: "represents s a"
    and room: "length (sv_queue a) < MAX_JOBS_QUEUE" "0 < headroom (q0 s)"
      "unat (sv_count a) < 2 ^ 32 - 1"
    and cr: "answer_max \<le> tx_credit sk"
  shows "served en pk buf s sk a"
proof -
  let ?e = "en_host en"
  define jid where "jid = (ucast (sv_count a) :: u16)"
  obtain p jm where al: "malloc (job_of ?e f d ip port (jb_id (en_job en))) (job_mem s) = (p, jm)"
    by fastforce
  let ?s1 = "s\<lparr>job_mem := jm\<rparr>"
  note a1 = alloc_job_inv [OF inv al]
  have cnt: "sv_count a = history_putidx s" using rep by (simp add: represents_def)
  obtain sk' where sk': "submittedResponse en jid sk = Ok sk'"
    "tx_bytes sk' = tx_bytes sk @ wire_of (SubResp jid)" "rx_bytes sk' = rx_bytes sk"
    "rx_ev sk' = rx_ev sk" "tx_credit sk \<le> tx_credit sk' + answer_max"
    using answer_ok [OF cr answer_sizes(1), of ?e jid "en_stack en"]
    by (auto simp: submittedResponse_def)
  have same: "lookup ?s1 = lookup s"
    "new_hist en (job_of ?e f d ip port (jb_id (en_job en))) jid =
       new_hist en (job_of ?e f d ip port jid) jid"
    "(job_of ?e f d ip port (jb_id (en_job en)))\<lparr>jb_id := jid\<rparr> = job_of ?e f d ip port jid"
    by (simp_all add: new_hist_def job_of_def)
  obtain s' where s': "newJob en p ?s1 sk = Ok (s', sk')" "server_inv {} s'"
    "history_putidx s' = sv_count a + 1" "headroom (q0 s) \<le> Suc (headroom (q0 s'))"
    "qlist (q0 s') = qlist (q0 s) @ [p]" "mload p (job_mem s') = Ok (job_of ?e f d ip port jid)"
    "\<forall>q. q \<noteq> p \<longrightarrow> mload q (job_mem s') = mload q jm"
    "lookup s' = (\<lambda>k. if k = jid then Some (new_hist en (job_of ?e f d ip port jid) jid)
                     else if id_slot k = id_slot jid then None else lookup s k)"
    using newJob_ok [OF a1(1), of p "job_of ?e f d ip port (jb_id (en_job en))" jid en sk sk', unfolded same]
      a1(2) room sk'(1) represents_length [OF rep]
    by (auto simp: cnt jid_def)
  have "load_all (qlist (q0 s)) (job_mem s') = load_all (qlist (q0 s)) (job_mem s)"
    using s'(7) a1(4,5) by (intro load_all_cong) metis
  then have "represents s' (fst (sv_submit en f d ip port a))"
    using rep s' by (auto simp: represents_def sv_submit_def Let_def jid_def load_all_append)
  moreover have "client_spec en pk a = sv_submit en f d ip port a"
    using sub by (auto simp: submission_def)
  moreover have "pk \<noteq> ClientClosed" using sub by (auto simp: submission_def)
  ultimately show ?thesis
    using submit_dispatch [OF sub refl al, of buf sk] s'(1,2,4) sk'
    by (auto simp: served_def sv_submit_def Let_def jid_def)
qed

lemma served_jobState:
  assumes inv: "server_inv {} s" and rep: "represents s a" and cr: "answer_max \<le> tx_credit sk"
  shows "served en (JobStateReq j) buf s sk a"
proof -
  let ?e = "en_host en"
  define ans where "ans = (case sv_hist a j of
      None \<Rightarrow> BadParams | Some jh \<Rightarrow> JobStateResp j (jh_state jh) (jh_exit_status jh))"
  have lk: "lookup s = sv_hist a" using rep by (simp add: represents_def)
  have "jobState en j s sk = reply ?e sk (encode ?e ans (en_stack en))"
    using hist.find_none [OF server_invD(1) [OF inv], of j]
      hist.find_some [OF server_invD(1) [OF inv], of j]
    by (cases "sv_hist a j") (auto simp: jobState_def ans_def lk)
  moreover have "packet_size ans \<le> answer_max"
    by (simp add: ans_def answer_max_def layout split: option.split)
  ultimately show ?thesis
    using answer_ok [OF cr, of ans ?e "en_stack en"] inv rep
    by (auto simp: served_def attendClient_msg_def Type_of_encode get_request ans_def
        simp del: encode.simps Type_u8.simps)
qed

lemma served_queueState:
  assumes inv: "server_inv {} s" and rep: "represents s a" and cr: "answer_max \<le> tx_credit sk"
  shows "served en (QueStateReq q) buf s sk a"
proof -
  let ?e = "en_host en"
  define ans where "ans = (if q = 0 then QueStateResp q (QUEUE_STATE_u8
      (if length (sv_queue a) = MAX_JOBS_QUEUE then STATE_FULL else STATE_AVAIL)) else BadParams)"
  have q: "unat q \<ge> NUM_QUEUE_MAX \<longleftrightarrow> q \<noteq> 0"
    by (simp add: NUM_QUEUE_MAX_def Suc_le_eq unat_gt_0)
  have len: "length (sv_queue a) = unat (put_idx (q0 s)) - unat (get_idx (q0 s))"
    using length_qlist [OF server_invD(3) [OF inv]] represents_length [OF rep] by simp
  have "q_state (q0 s) = QUEUE_STATE_u8
      (if length (sv_queue a) = MAX_JOBS_QUEUE then STATE_FULL else STATE_AVAIL)"
    using server_invD(3) [OF inv] unfolding len queue_inv_def MAX_JOBS_QUEUE_def by auto
  then have "queueState en \<lparr>queue_id = q\<rparr> s sk = reply ?e sk (encode ?e ans (en_stack en))"
    by (simp add: queueState_def ans_def q)
  moreover have "packet_size ans \<le> answer_max" by (simp add: ans_def answer_max_def layout)
  ultimately show ?thesis
    using answer_ok [OF cr, of ans ?e "en_stack en"] inv rep
    by (auto simp: served_def attendClient_msg_def Type_of_encode get_request ans_def
        simp del: encode.simps Type_u8.simps)
qed

text \<open>A withdrawal of a queued job, when the occupied slots do not wrap.\<close>

lemma load_all_split:
  assumes "load_all ps h = Ok (xs @ x # ys)"
  obtains as p bs where "ps = as @ p # bs" "load_all as h = Ok xs" "mload p h = Ok x"
    "load_all bs h = Ok ys"
  using assms
proof (induction xs arbitrary: ps thesis)
  case Nil
  then show ?case by (cases ps) (fastforce simp: bnd_eq_Ok_iff)+
next
  case (Cons z xs)
  from Cons.prems(2) obtain q qs where ps: "ps = q # qs" "mload q h = Ok z"
    "load_all qs h = Ok (xs @ x # ys)"
    by (cases ps) (auto simp: bnd_eq_Ok_iff)
  obtain as p bs where "qs = as @ p # bs" "load_all as h = Ok xs" "mload p h = Ok x"
    "load_all bs h = Ok ys"
    using Cons.IH [OF _ ps(3)] by blast
  then show ?case using Cons.prems(1) [of "q # as" p bs] ps by simp
qed

lemma load_all_lacks:
  assumes "load_all ps h = Ok xs" "\<forall>x\<in>set xs. jb_id x \<noteq> j"
  shows "\<forall>p\<in>set ps. lacks_id h j p"
  using assms by (induction ps arbitrary: xs) (auto simp: bnd_eq_Ok_iff lacks_id_def)

lemma unsubmit_remove_ok:
  assumes inv: "server_inv held s" and unw: "slot (get_idx (q0 s)) < slot (put_idx (q0 s))"
    and cont: "qlist (q0 s) = as @ p # bs"
    and ids: "\<forall>r\<in>set as. lacks_id (job_mem s) j r" "has_id (job_mem s) j p"
  shows "\<exists>q jm. unsubmit_remove j 0 s = Ok (s\<lparr>queue := (queue s)[0 := q], job_mem := jm\<rparr>) \<and>
           qlist q = as @ bs \<and> headroom q = Suc (headroom (q0 s)) \<and>
           server_inv held (s\<lparr>queue := (queue s)[0 := q], job_mem := jm\<rparr>) \<and>
           (\<forall>r. r \<noteq> p \<longrightarrow> mload r jm = mload r (job_mem s))"
proof -
  obtain q jm where q: "removeJob j (q0 s) (job_mem s) = Ok (q, jm)" "mfree p (job_mem s) = Ok jm"
    "queue_inv q" "qlist q = as @ bs" "headroom q = Suc (headroom (q0 s))"
    using removeJob_hit [OF server_invD(3) [OF inv] unw cont ids] by blast
  note lv = heap.valid_release [OF has_id_live [OF ids(2)] q(2)]
  have "server_inv held (s\<lparr>queue := (queue s)[0 := q], job_mem := jm\<rparr>)"
    using inv q(3,4) cont lv heap.release_wf [OF q(2)]
    unfolding server_inv_def by (auto simp: NUM_QUEUE_MAX_def)
  moreover have "unsubmit_remove j 0 s = Ok (s\<lparr>queue := (queue s)[0 := q], job_mem := jm\<rparr>)"
    using q(1) by (simp add: unsubmit_remove_def NUM_QUEUE_MAX_def)
  ultimately show ?thesis using q(4,5) heap.release_frame [OF q(2)] by blast
qed

lemma unsubmit_mark_ok:
  assumes "server_inv held s" "lookup s j = Some jh"
  shows "\<exists>h. unsubmit_mark j s = Ok (s\<lparr>hist_mem := h\<rparr>) \<and> server_inv held (s\<lparr>hist_mem := h\<rparr>) \<and>
           lookup (s\<lparr>hist_mem := h\<rparr>) =
             (lookup s)(j \<mapsto> jh\<lparr>jh_state := JOB_STATE_u8 STATE_UNSUBMITED\<rparr>)"
proof -
  let ?f = "\<lambda>jh. jh\<lparr>jh_state := JOB_STATE_u8 STATE_UNSUBMITED\<rparr>"
  have "unsubmit_mark j s = amend findJob hist_set j ?f s"
    using findJob_eq [OF server_invD(1) [OF assms(1)], of j] assms(2)
    by (simp add: unsubmit_mark_def amend_def JOB_HISTORY_MAX_def less_imp_le)
  then show ?thesis using amend_inv [OF assms(1), of ?f j] assms(2) by auto
qed

lemma unsubmit_check_eq:
  assumes "server_inv held s"
  shows "unsubmit_check j s =
     Ok (case lookup s j of
           None \<Rightarrow> None
         | Some jh \<Rightarrow> if jh_state jh = JOB_STATE_u8 STATE_WAIT then Some (jh_queue_idx jh) else None)"
  using hist.find_none [OF server_invD(1) [OF assms], of j]
    hist.find_some [OF server_invD(1) [OF assms], of j]
  by (cases "lookup s j") (auto simp: unsubmit_check_def)

lemma served_unsubmit_refused:
  assumes inv: "server_inv {} s" and rep: "represents s a" and cr: "answer_max \<le> tx_credit sk"
    and no: "\<And>jh. sv_hist a j = Some jh \<Longrightarrow> jh_state jh \<noteq> JOB_STATE_u8 STATE_WAIT"
  shows "served en (Unsub j) buf s sk a"
proof -
  have "sv_unsubmit j a = (a, [BadParams])" "unsubmit_check j s = Ok None"
    using no rep by (auto simp: sv_unsubmit_def unsubmit_check_eq [OF inv] represents_def
        split: option.splits)
  then show ?thesis
    using answer_ok [OF cr answer_sizes(5), of "en_host en" "en_stack en"] inv rep
    by (auto simp: served_def attendClient_msg_def Type_of_encode get_request unsubmit_def
        answer_encode simp del: encode.simps Type_u8.simps)
qed

lemma served_unsubmit_done:
  assumes inv: "server_inv {} s" and rep: "represents s a" and cr: "answer_max \<le> tx_credit sk"
    and jh: "sv_hist a j = Some jh" "jh_state jh = JOB_STATE_u8 STATE_WAIT"
    and queued: "j \<in> jb_id ` set (sv_queue a)"
    and unw: "slot (get_idx (q0 s)) < slot (put_idx (q0 s))"
  shows "served en (Unsub j) buf s sk a"
proof -
  let ?e = "en_host en" and ?P = "\<lambda>b. jb_id b \<noteq> j"
  have lk: "lookup s = sv_hist a" and ld: "load_all (qlist (q0 s)) (job_mem s) = Ok (sv_queue a)"
    using rep by (simp_all add: represents_def)
  define xs ys where "xs = takeWhile ?P (sv_queue a)" and "ys = tl (dropWhile ?P (sv_queue a))"
  obtain x where x: "sv_queue a = xs @ x # ys" "jb_id x = j"
  proof -
    obtain b where b: "b \<in> set (sv_queue a)" "\<not> ?P b" using queued by auto
    then have ne: "dropWhile ?P (sv_queue a) \<noteq> []" by (auto simp: dropWhile_eq_Nil_conv)
    then have "\<not> ?P (hd (dropWhile ?P (sv_queue a)))" by (rule hd_dropWhile)
    moreover have "sv_queue a = xs @ hd (dropWhile ?P (sv_queue a)) # ys"
      using ne by (simp add: xs_def ys_def)
    ultimately show ?thesis using that by auto
  qed
  obtain as p bs where sp: "qlist (q0 s) = as @ p # bs" "load_all as (job_mem s) = Ok xs"
    "mload p (job_mem s) = Ok x" "load_all bs (job_mem s) = Ok ys"
    using load_all_split [OF ld [unfolded x(1)]] by metis
  have ids: "\<forall>r\<in>set as. lacks_id (job_mem s) j r" "has_id (job_mem s) j p"
    using load_all_lacks [OF sp(2)] sp(3) x(2) by (auto simp: xs_def has_id_def dest: set_takeWhileD)
  obtain q jm where r: "unsubmit_remove j 0 s = Ok (s\<lparr>queue := (queue s)[0 := q], job_mem := jm\<rparr>)"
    "qlist q = as @ bs" "server_inv {} (s\<lparr>queue := (queue s)[0 := q], job_mem := jm\<rparr>)"
    "headroom q = Suc (headroom (q0 s))" "\<forall>r. r \<noteq> p \<longrightarrow> mload r jm = mload r (job_mem s)"
    using unsubmit_remove_ok [OF inv unw sp(1) ids] by blast
  let ?s1 = "s\<lparr>queue := (queue s)[0 := q], job_mem := jm\<rparr>"
  have "lookup ?s1 j = Some jh" using jh(1) lk by simp
  from unsubmit_mark_ok [OF r(3) this] obtain h where mk: "unsubmit_mark j ?s1 = Ok (?s1\<lparr>hist_mem := h\<rparr>)"
    "server_inv {} (?s1\<lparr>hist_mem := h\<rparr>)"
    "lookup (?s1\<lparr>hist_mem := h\<rparr>) = (sv_hist a)(j \<mapsto> jh\<lparr>jh_state := JOB_STATE_u8 STATE_UNSUBMITED\<rparr>)"
    by (auto simp: lk)
  have "distinct (as @ p # bs)" using server_invD(5) [OF inv] sp(1) by simp
  then have "load_all (as @ bs) jm = load_all (as @ bs) (job_mem s)"
    using r(5) by (intro load_all_cong) auto
  then have "load_all (qlist (q0 (?s1\<lparr>hist_mem := h\<rparr>))) jm = Ok (xs @ ys)"
    using r(2) sp server_invD(2) [OF inv] by (simp add: load_all_append)
  then have rep': "represents (?s1\<lparr>hist_mem := h\<rparr>) (fst (sv_unsubmit j a))"
    using mk(3) jh rep by (simp add: represents_def sv_unsubmit_def xs_def ys_def)
  have "unsubmit_check j s = Ok (Some 0)"
    using jh server_invD(8) [OF inv, of j jh] by (simp add: unsubmit_check_eq [OF inv] lk unat_eq_zero)
  then show ?thesis
    using answer_ok [OF cr answer_sizes(4), of ?e j "en_stack en"] r(1,4) mk(1,2) rep' jh
      server_invD(2) [OF inv]
    by (auto simp: served_def attendClient_msg_def Type_of_encode get_request unsubmit_def
        answer_encode sv_unsubmit_def simp del: encode.simps Type_u8.simps)
qed

lemma served_ignored:
  assumes "server_inv {} s" "represents s a"
    and "pk \<notin> range JobStateReq \<union> range QueStateReq \<union> range Unsub"
    and "\<not> (\<exists>f d ip port. submission pk f d ip port)"
  shows "served en pk buf s sk a"
  using assms
  by (cases pk) (auto simp: served_def submission_def attendClient_msg_def Type_of_encode
      simp del: encode.simps Type_u8.simps)

lemma served_all:
  assumes "server_inv {} s" "represents s a" "servable pk s a" "answer_max \<le> tx_credit sk"
  shows "served en pk buf s sk a"
proof (cases "pk \<in> range JobStateReq \<union> range QueStateReq \<union> range Unsub \<or>
    (\<exists>f d ip port. submission pk f d ip port)")
  case True
  then show ?thesis
  proof (elim disjE UnE rangeE exE)
    fix j assume pk: "pk = Unsub j"
    show ?thesis
    proof (cases "\<exists>jh. sv_hist a j = Some jh \<and> jh_state jh = JOB_STATE_u8 STATE_WAIT")
      case True
      then show ?thesis using served_unsubmit_done [OF assms(1,2,4)] assms(3) pk by auto
    next
      case False
      then show ?thesis using served_unsubmit_refused [OF assms(1,2,4)] pk by blast
    qed
  next
    fix f d ip port assume sub: "submission pk f d ip port"
    then show ?thesis
      using assms(3) by (intro served_submission [OF sub assms(1,2) _ _ _ assms(4)])
        (auto simp: submission_def)
  qed (use served_jobState [OF assms(1,2,4)] served_queueState [OF assms(1,2,4)] in blast)+
next
  case False
  then show ?thesis using served_ignored [OF assms(1,2)] by blast
qed

section \<open>A whole client connection\<close>

fun serve_all :: "(nat \<Rightarrow> env) \<Rightarrow> nat \<Rightarrow> packet list \<Rightarrow> service \<Rightarrow> service \<times> packet list" where
  "serve_all ens n [] a = (a, [])"
| "serve_all ens n (pk # pks) a =
     (let (a, out) = client_spec (ens n) pk a; (a, outs) = serve_all ens (Suc n) pks a
      in (a, out @ outs))"

text \<open>Requests that do not depend on where the ring stands: submissions while there is room,
  enquiries, and withdrawals that are refused.\<close>

fun orderly :: "packet \<Rightarrow> service \<Rightarrow> bool" where
  "orderly (SubNoInter f d) a = (length (sv_queue a) < MAX_JOBS_QUEUE)"
| "orderly (SubInteractive f d ip port) a = (length (sv_queue a) < MAX_JOBS_QUEUE)"
| "orderly (Unsub j) a =
     (case sv_hist a j of None \<Rightarrow> True | Some jh \<Rightarrow> jh_state jh \<noteq> JOB_STATE_u8 STATE_WAIT)"
| "orderly ClientClosed a = False"
| "orderly p a = True"

fun orderly_all :: "(nat \<Rightarrow> env) \<Rightarrow> nat \<Rightarrow> packet list \<Rightarrow> service \<Rightarrow> bool" where
  "orderly_all ens n [] a = True"
| "orderly_all ens n (pk # pks) a =
     (orderly pk a \<and> orderly_all ens (Suc n) pks (fst (client_spec (ens n) pk a)))"

lemma orderly_servable:
  "orderly pk a \<Longrightarrow> 0 < headroom (q0 s) \<Longrightarrow> unat (sv_count a) < 2 ^ 32 - 1 \<Longrightarrow> servable pk s a"
  by (cases pk) (auto split: option.splits)

lemma client_spec_count:
  assumes "unat (sv_count a) < 2 ^ 32 - 1"
  shows "unat (sv_count (fst (client_spec en pk a))) \<le> Suc (unat (sv_count a))"
  using assms
  by (cases pk) (auto simp: sv_submit_def sv_unsubmit_def Let_def unat_word_ariths split: option.splits)

lemma session_aux:
  assumes "server_inv {} s" "represents s a" "orderly_all ens n pks a"
    and "length pks \<le> headroom (q0 s)" "unat (sv_count a) + length pks < 2 ^ 32"
    and "rx_bytes sk = concat (map wire_of pks) @ wire_of ClientClosed @ rest"
    and "sum_list (map packet_size pks) + packet_size ClientClosed \<le> rx_credit sk"
    and "answer_max * length pks \<le> tx_credit sk"
  shows "\<exists>s' sk'. attendClient ens n buf s sk = Ok (s', sk') \<and> server_inv {} s' \<and>
           represents s' (fst (serve_all ens n pks a)) \<and>
           tx_bytes sk' = tx_bytes sk @ concat (map wire_of (snd (serve_all ens n pks a))) \<and>
           rx_bytes sk' = rest"
  using assms
proof (induction pks arbitrary: n buf s sk a)
  case Nil
  let ?e = "en_host (ens n)"
  obtain sk' where "recvMsg ?e sk buf = Ok (1, encode ?e ClientClosed buf, sk')" "rx_bytes sk' = rest"
    "tx_bytes sk' = tx_bytes sk"
    using chan.recv_ok [of ClientClosed sk rest ?e buf] Nil by auto
  with Nil show ?case
    by (subst attendClient.simps) (auto simp: attendClient_msg_def Type_of_encode
        simp del: encode.simps Type_u8.simps)
next
  case (Cons pk pks)
  let ?e = "en_host (ens n)" and ?rest = "concat (map wire_of pks) @ wire_of ClientClosed @ rest"
  obtain sk1 where sk1: "recvMsg ?e sk buf = Ok (1, encode ?e pk buf, sk1)" "rx_bytes sk1 = ?rest"
    "tx_bytes sk1 = tx_bytes sk" "tx_credit sk1 = tx_credit sk"
    "rx_credit sk \<le> rx_credit sk1 + packet_size pk"
    using chan.recv_ok [of pk sk ?rest ?e buf] Cons.prems by auto
  have ord: "orderly pk a" "orderly_all ens (Suc n) pks (fst (client_spec (ens n) pk a))"
    using Cons.prems(3) by auto
  have lim: "0 < headroom (q0 s)" "unat (sv_count a) < 2 ^ 32 - 1" "answer_max \<le> tx_credit sk1"
    using Cons.prems(4,5,8) sk1(4) by auto
  have "served (ens n) pk buf s sk1 a"
    by (rule served_all [OF Cons.prems(1,2) orderly_servable [OF ord(1) lim(1,2)] lim(3)])
  moreover have "pk \<noteq> ClientClosed" using ord(1) by auto
  ultimately obtain s2 sk2 where s2:
    "attendClient_msg (ens n) (encode ?e pk buf) s sk1 = Ok (True, s2, sk2)" "server_inv {} s2"
    "represents s2 (fst (client_spec (ens n) pk a))"
    "tx_bytes sk2 = tx_bytes sk @ concat (map wire_of (snd (client_spec (ens n) pk a)))"
    "rx_bytes sk2 = ?rest" "rx_credit sk2 = rx_credit sk1"
    "tx_credit sk1 \<le> tx_credit sk2 + answer_max" "headroom (q0 s) \<le> Suc (headroom (q0 s2))"
    unfolding served_def using sk1(2,3) by (auto simp: rx_credit_def)
  obtain s' sk' where "attendClient ens (Suc n) (encode ?e pk buf) s2 sk2 = Ok (s', sk')"
    "server_inv {} s'"
    "represents s' (fst (serve_all ens (Suc n) pks (fst (client_spec (ens n) pk a))))"
    "tx_bytes sk' = tx_bytes sk2 @
       concat (map wire_of (snd (serve_all ens (Suc n) pks (fst (client_spec (ens n) pk a)))))"
    "rx_bytes sk' = rest"
    using Cons.IH [OF s2(2,3) ord(2), of sk2 "encode ?e pk buf"] s2(5,6,7,8) sk1(4,5)
      Cons.prems(4,5,7,8) client_spec_count [OF lim(2), of "ens n" pk] by auto
  with s2 sk1(1) show ?case
    by (subst attendClient.simps) (auto simp: Let_def split: prod.splits)
qed

section \<open>Start and end\<close>

definition init_server :: server where
  "init_server = \<lparr>job_array = replicate JOB_HISTORY_MAX NULL, history_putidx = 0,
     queue = [\<lparr>q_jobs = replicate MAX_JOBS_QUEUE Junk, put_idx = 0, get_idx = 0, q_id = 0, q_state = 0\<rparr>],
     queue2put = 0, queue2get = 0, job_mem = empty_heap, hist_mem = empty_heap\<rparr>"

definition init_service :: service where
  "init_service = \<lparr>sv_hist = Map.empty, sv_queue = [], sv_count = 0\<rparr>"

lemma init_server_ok:
  "MainServerInit 0 0 (\<lambda>_. (0, 0, 0)) = Ok init_server"
  "server_inv {} init_server" "represents init_server init_service"
  "headroom (q0 init_server) = 2 ^ 32 - 1"
proof -
  have q: "queue_inv (q0 init_server)" "qlist (q0 init_server) = []"
    by (simp_all add: init_server_def queue_inv_def qlist_def MAX_JOBS_QUEUE_def)
  have f: "filled init_server = 0" by (simp add: init_server_def filled_def)
  have h: "hist_inv init_server" by (simp add: hist_inv_def f) (simp add: init_server_def)
  have l: "lookup init_server = Map.empty" by (simp add: lookup_def f fun_eq_iff)
  have m: "job_mem init_server = empty_heap" "length (queue init_server) = 1"
    "history_putidx init_server = 0"
    by (simp_all add: init_server_def)
  show "server_inv {} init_server" "represents init_server init_service"
    using q h l m by (simp_all add: server_inv_def represents_def NUM_QUEUE_MAX_def init_service_def)
  show "MainServerInit 0 0 (\<lambda>_. (0, 0, 0)) = Ok init_server"
    by (simp add: MainServerInit_def init_server_def QueueInit_def NUM_QUEUE_MAX_def)
  show "headroom (q0 init_server) = 2 ^ 32 - 1" by (simp add: headroom_def init_server_def)
qed

text \<open>Every record on the heap is in the history array.\<close>

definition hist_tight :: "server \<Rightarrow> bool" where
  "hist_tight s \<longleftrightarrow> (\<forall>p. live (hist_mem s) p \<longleftrightarrow> p \<in> set (take (filled s) (job_array s)))"

lemma hist_tight_init: "hist_tight init_server"
  by (simp add: hist_tight_def filled_def init_server_def)

lemma filled_distinct: "hist_inv s \<Longrightarrow> distinct (take (filled s) (job_array s))"
  using hist_inv_inj [of s] by (auto simp: distinct_conv_nth)

lemma hist_tight_register:
  assumes "hist_inv s" "hist_tight s" "unat (history_putidx s) < 65536"
    and jid: "jid = (ucast (history_putidx s) :: u16)"
    and s': "job_array s' = (job_array s)[id_slot jid := ph]" "history_putidx s' = history_putidx s + 1"
      "\<forall>q. live (hist_mem s') q \<longleftrightarrow> q = ph \<or> live (hist_mem s) q \<and>
         \<not> (10 \<le> unat jid \<and> q = job_array s ! id_slot jid)"
  shows "hist_tight s'"
proof -
  let ?n = "unat (history_putidx s)"
  have j: "unat jid = ?n" using assms(3) by (simp add: jid unat_ucast_id)
  have inc: "unat (history_putidx s') = Suc ?n" using assms(3) by (simp add: s'(2) unat_word_ariths)
  have len: "length (job_array s) = 10" by (rule hist_inv_len [OF assms(1)])
  have tight: "live (hist_mem s) p \<longleftrightarrow> p \<in> set (take (filled s) (job_array s))" for p
    using assms(2) by (simp add: hist_tight_def)
  show ?thesis
  proof (cases "?n < 10")
    case True
    then have f: "filled s = ?n" "filled s' = Suc ?n" "id_slot jid = ?n"
      by (simp_all add: filled_def inc j id_slot_def JOB_HISTORY_MAX_def)
    have "take (Suc ?n) ((job_array s)[?n := ph]) = take ?n (job_array s) @ [ph]"
      using True len by (simp add: take_Suc_conv_app_nth)
    then show ?thesis
      unfolding hist_tight_def using tight True by (auto simp: f s'(1,3) j)
  next
    case False
    then have f: "filled s = 10" "filled s' = 10" by (simp_all add: filled_def inc JOB_HISTORY_MAX_def)
    have "distinct (job_array s)" using filled_distinct [OF assms(1)] len by (simp add: f)
    then have "set ((job_array s)[id_slot jid := ph]) =
        insert ph (set (job_array s) - {job_array s ! id_slot jid})"
      using len by (simp add: set_update_distinct)
    then show ?thesis
      unfolding hist_tight_def using tight False len by (auto simp: f s'(1,3) j)
  qed
qed

lemma MainServerDestroy_ok:
  assumes "server_inv {} s"
  shows "\<exists>jm hm. MainServerDestroy (\<lambda>_. (0, 0, 0)) s = Ok (jm, hm) \<and> (\<forall>p. \<not> live jm p) \<and>
           (\<forall>p. live hm p \<longleftrightarrow> live (hist_mem s) p \<and> p \<notin> set (take (filled s) (job_array s)))"
proof -
  have "distinct (qlist (q0 s))" "\<forall>p\<in>set (qlist (q0 s)). live (job_mem s) p"
    using server_invD(5,7) [OF assms] by blast+
  from heap.free_list_ok [OF this] obtain jm where jm: "free_list mfree (qlist (q0 s)) (job_mem s) = Ok jm"
    "\<forall>p. live jm p \<longleftrightarrow> live (job_mem s) p \<and> p \<notin> set (qlist (q0 s))"
    by blast
  have "\<forall>p\<in>set (take (filled s) (job_array s)). live (hist_mem s) p"
    using hist_inv_live [OF server_invD(1) [OF assms]] hist_inv_len [OF server_invD(1) [OF assms]]
    by (auto simp: in_set_conv_nth)
  from heap.free_list_ok [OF filled_distinct [OF server_invD(1) [OF assms]] this] obtain hm where
    hm: "free_list mfree (take (filled s) (job_array s)) (hist_mem s) = Ok hm"
    "\<forall>p. live hm p \<longleftrightarrow> live (hist_mem s) p \<and> p \<notin> set (take (filled s) (job_array s))"
    by blast
  have q: "queue s = [q0 s]" using server_invD(2) [OF assms] by (cases "queue s") auto
  have "destroy_queues (\<lambda>_. (0, 0, 0)) 0 (queue s) (job_mem s) = Ok jm"
    using jm(1) by (subst q) (simp add: QueueDestroy_def)
  moreover have "(if unat (history_putidx s) < JOB_HISTORY_MAX then unat (history_putidx s)
      else JOB_HISTORY_MAX) = filled s"
    by (auto simp: filled_def)
  ultimately have "MainServerDestroy (\<lambda>_. (0, 0, 0)) s = Ok (jm, hm)"
    using hm(1) by (simp add: MainServerDestroy_def Let_def)
  then show ?thesis using jm(2) hm(2) server_invD(7) [OF assms] by auto
qed

section \<open>Properties\<close>

text \<open>Example data: an environment, and servers.\<close>

definition ex_env :: env where
  "ex_env = \<lparr>en_host = LE, en_time = 1000, en_job = ex_job 99, en_hist = ex_hist 99, en_stack = (\<lambda>_. 0xAA)\<rparr>"

text \<open>A server with \<open>n\<close> queued jobs and jobs up to \<open>k\<close> held by threads; the history is empty, or
  knows job 0.\<close>

definition ex_srv :: "nat \<Rightarrow> nat \<Rightarrow> server" where
  "ex_srv n k = \<lparr>job_array = replicate JOB_HISTORY_MAX NULL, history_putidx = 0,
     queue = [\<lparr>q_jobs = map At [0..<n] @ replicate (MAX_JOBS_QUEUE - n) Junk, put_idx = of_nat n,
               get_idx = 0, q_id = 0, q_state = (if n = MAX_JOBS_QUEUE then 1 else 0)\<rparr>],
     queue2put = 0, queue2get = 0,
     job_mem = \<lparr>cells = (\<lambda>a. if a < k then Some (ex_job (of_nat a)) else None), brk = k\<rparr>,
     hist_mem = empty_heap\<rparr>"

definition ex_srv_hist :: "nat \<Rightarrow> nat \<Rightarrow> server" where
  "ex_srv_hist n k = (ex_srv n k)\<lparr>job_array := At 0 # replicate 9 NULL, history_putidx := 1,
     hist_mem := \<lparr>cells = [0 \<mapsto> ex_hist 0], brk = 1\<rparr>\<rparr>"

lemma ex_srv_queue:
  assumes "n \<le> MAX_JOBS_QUEUE"
  shows "queue_inv (q0 (ex_srv n k))" "qlist (q0 (ex_srv n k)) = map At [0..<n]"
    "headroom (q0 (ex_srv n k)) = 2 ^ 32 - 1 - n"
proof -
  have n: "n \<le> 15" "unat (of_nat n :: u32) = n"
    using assms by (simp_all add: MAX_JOBS_QUEUE_def unat_of_nat)
  show inv: "queue_inv (q0 (ex_srv n k))"
    using n by (auto simp: ex_srv_def queue_inv_def MAX_JOBS_QUEUE_def)
  show "qlist (q0 (ex_srv n k)) = map At [0..<n]"
    using n unfolding qlist_window [OF inv] window_def
    by (auto simp: ex_srv_def nth_append intro!: nth_equalityI)
  show "headroom (q0 (ex_srv n k)) = 2 ^ 32 - 1 - n" using n by (simp add: headroom_def ex_srv_def)
qed

lemma ex_srv_jobs: "mload (At a) (job_mem (ex_srv n k)) = (if a < k then Ok (ex_job (of_nat a)) else Fail UseAfterFree)"
  "live (job_mem (ex_srv n k)) p \<longleftrightarrow> p \<in> At ` {0..<k}" "heap_ok (job_mem (ex_srv n k))"
  by (auto simp: ex_srv_def mload_def live_def heap_ok_def split: ptr.splits)

lemma ex_srv_inv:
  assumes "n \<le> MAX_JOBS_QUEUE" "n \<le> k"
  shows "server_inv (At ` {n..<k}) (ex_srv n k)" "lookup (ex_srv n k) = Map.empty"
proof -
  have f: "filled (ex_srv n k) = 0" by (simp add: ex_srv_def filled_def)
  have h: "hist_inv (ex_srv n k)" by (simp add: hist_inv_def f) (simp add: ex_srv_def)
  show l: "lookup (ex_srv n k) = Map.empty" by (simp add: lookup_def f fun_eq_iff)
  have "length (queue (ex_srv n k)) = 1" by (simp add: ex_srv_def)
  moreover have "At ` {0..<k} = At ` {0..<n} \<union> At ` {n..<k}"
    using assms(2) by (simp add: ivl_disj_un_two(3) flip: image_Un)
  moreover have "At ` {0..<n} \<inter> At ` {n..<k} = {}" by auto
  ultimately show "server_inv (At ` {n..<k}) (ex_srv n k)"
    using ex_srv_queue [OF assms(1), of k] h assms(2) ex_srv_jobs(2,3) [of n k]
    by (auto simp: server_inv_def l NUM_QUEUE_MAX_def distinct_map inj_on_def)
qed

lemma ex_srv_hist_fields:
  "queue (ex_srv_hist n k) = queue (ex_srv n k)" "job_mem (ex_srv_hist n k) = job_mem (ex_srv n k)"
  by (simp_all add: ex_srv_hist_def)

lemma ex_srv_hist_inv:
  assumes "n \<le> MAX_JOBS_QUEUE" "n \<le> k"
  shows "server_inv (At ` {n..<k}) (ex_srv_hist n k)" "lookup (ex_srv_hist n k) = [0 \<mapsto> ex_hist 0]"
proof -
  let ?s = "ex_srv_hist n k"
  have f: "filled ?s = 1" "job_array ?s = At 0 # replicate 9 NULL" "heap_ok (hist_mem ?s)"
    "mload (At 0) (hist_mem ?s) = Ok (ex_hist 0)"
    by (simp_all add: ex_srv_hist_def filled_def JOB_HISTORY_MAX_def heap_ok_def mload_def)
  have h: "hist_inv ?s"
    by (auto simp: hist_inv_def f JOB_HISTORY_MAX_def ex_hist_def nth_Cons')
  have z: "id_slot 0 = 0" by (simp add: id_slot_def)
  have "lookup ?s j = [0 \<mapsto> ex_hist 0] j" for j
    by (cases "j = 0") (auto simp: lookup_def f z ex_hist_def)
  then show l: "lookup ?s = [0 \<mapsto> ex_hist 0]" by (rule ext)
  show "server_inv (At ` {n..<k}) ?s"
    using ex_srv_inv(1) [OF assms] h
    by (auto simp: server_inv_def l ex_srv_hist_fields NUM_QUEUE_MAX_def ex_hist_def split: if_splits)
qed

text \<open>C5: refinement of the request handlers. On every client packet, \<open>attendClient\<close>'s dispatch and
  the handler it calls do to the server what \<open>client_spec\<close> does to the abstract service, send
  exactly the packets \<open>client_spec\<close> answers with, keep the server invariant (no dangling, shared or
  leaked job block) and end the loop only for a closed connection; provided the answer can be sent,
  a submission finds room, and a job to withdraw is queued in an unwrapped ring.\<close>

theorem client_request_refines:
  assumes "server_inv {} s" "represents s a" "servable pk s a" "answer_max \<le> tx_credit sk"
  shows "\<exists>s' sk'. attendClient_msg en (encode (en_host en) pk buf) s sk =
             Ok (pk \<noteq> ClientClosed, s', sk') \<and>
           server_inv {} s' \<and> represents s' (fst (client_spec en pk a)) \<and>
           tx_bytes sk' = tx_bytes sk @ concat (map wire_of (snd (client_spec en pk a)))"
  using served_all [OF assms, of en buf] unfolding served_def by blast

theorem client_request_refines_witness:
  "\<exists>s' sk'. attendClient_msg ex_env (encode LE (SubNoInter [108, 115] [47]) (\<lambda>_. 0)) init_server
        (ex_sock 9 []) = Ok (True, s', sk') \<and>
      server_inv {} s' \<and> sv_queue (fst (client_spec ex_env (SubNoInter [108, 115] [47]) init_service)) =
        [job_of LE [108, 115] [47] 0 0 0] \<and>
      tx_bytes sk' = wire_of (SubResp 0)"
proof -
  have "servable (SubNoInter [108, 115] [47]) init_server init_service"
    using init_server_ok(4) by (simp add: init_service_def MAX_JOBS_QUEUE_def)
  moreover have "answer_max \<le> tx_credit (ex_sock 9 [])" by (simp add: answer_max_def layout)
  ultimately show ?thesis
    using client_request_refines [OF init_server_ok(2,3), of "SubNoInter [108, 115] [47]" "ex_sock 9 []"
        ex_env "\<lambda>_. 0"]
    by (auto simp: ex_env_def sv_submit_def init_service_def Let_def)
qed



text \<open>A submission to a full queue. The job is already recorded as waiting and the client has
  its answer when the thread starts to wait for room; the queue is unchanged until then.\<close>

theorem submit_full_waits:
  assumes "server_inv held s" "p \<in> held" "mload p (job_mem s) = Ok job"
    and "unat (history_putidx s) < 2 ^ 32 - 1" "length (qlist (q0 s)) = MAX_JOBS_QUEUE"
    and "packet_size (SubResp 0) \<le> tx_credit sk"
  shows "\<exists>s' sk'. newJob_record en p s sk = Ok (0, s', sk') \<and> server_inv held s' \<and>
           queue s' = queue s \<and>
           lookup s' (ucast (history_putidx s)) = Some (new_hist en job (ucast (history_putidx s))) \<and>
           tx_bytes sk' = tx_bytes sk @ wire_of (SubResp (ucast (history_putidx s))) \<and>
           putJob_at 0 p s' = Wait \<and> newJob en p s sk = Wait"
proof -
  define jid where "jid = (ucast (history_putidx s) :: u16)"
  obtain sk' where sk': "submittedResponse en jid sk = Ok sk'"
    "tx_bytes sk' = tx_bytes sk @ wire_of (SubResp jid)"
    using reply_ok [of "SubResp jid" sk "en_host en" "en_stack en"] assms(6)
    by (auto simp: submittedResponse_def)
  obtain s' where s': "newJob_record en p s sk = Ok (0, s', sk')" "server_inv held s'"
    "queue s' = queue s" "lookup s' jid = Some (new_hist en job jid)"
    using newJob_record_ok [OF assms(1-4) jid_def sk'(1)] by auto
  have "putJob_at 0 p s' = Wait" using putJob_at_full [OF s'(2)] s'(3) assms(5) by simp
  then show ?thesis using s' sk'(2) by (simp add: newJob_def jid_def)
qed

theorem submit_full_waits_witness:
  "newJob ex_env (At 15) (ex_srv 15 16) (ex_sock 9 []) = Wait"
proof -
  have "{15..<16} = {15 :: nat}" by auto
  then have "server_inv {At 15} (ex_srv 15 16)"
    using ex_srv_inv(1) [of 15 16] by (simp add: MAX_JOBS_QUEUE_def)
  moreover have "length (qlist (q0 (ex_srv 15 16))) = MAX_JOBS_QUEUE"
    using ex_srv_queue(2) [of 15 16] by (simp add: MAX_JOBS_QUEUE_def)
  moreover have "mload (At 15) (job_mem (ex_srv 15 16)) = Ok (ex_job 15)"
    by (simp add: ex_srv_jobs)
  moreover have "unat (history_putidx (ex_srv 15 16)) < 2 ^ 32 - 1" by (simp add: ex_srv_def)
  moreover have "packet_size (SubResp 0) \<le> tx_credit (ex_sock 9 [])" by (simp add: layout)
  ultimately show ?thesis
    using submit_full_waits [of "{At 15}" "ex_srv 15 16" "At 15" "ex_job 15" "ex_sock 9 []" ex_env]
    by auto
qed

text \<open>\<open>MainServerDestroy\<close> leaves no memory behind. In a state with no job block held by a thread
  and every history record in its array, it faults nowhere (no double free) and afterwards no job
  block and no record is allocated.\<close>

theorem server_destroy_frees_all:
  assumes "server_inv {} s" "hist_tight s"
  shows "\<exists>jm hm. MainServerDestroy (\<lambda>_. (0, 0, 0)) s = Ok (jm, hm) \<and>
           (\<forall>p. \<not> live jm p) \<and> (\<forall>p. \<not> live hm p)"
  using MainServerDestroy_ok [OF assms(1)] assms(2) by (auto simp: hist_tight_def)

theorem server_destroy_frees_all_witness:
  "\<exists>jm hm. MainServerDestroy (\<lambda>_. (0, 0, 0)) (ex_srv_hist 3 3) = Ok (jm, hm) \<and>
     (\<forall>p. \<not> live jm p) \<and> (\<forall>p. \<not> live hm p)"
proof (rule server_destroy_frees_all)
  show "server_inv {} (ex_srv_hist 3 3)"
    using ex_srv_hist_inv(1) [of 3 3] by (simp add: MAX_JOBS_QUEUE_def)
  show "hist_tight (ex_srv_hist 3 3)"
    by (auto simp: hist_tight_def ex_srv_hist_def filled_def live_def JOB_HISTORY_MAX_def
        split: ptr.splits if_splits)
qed

end
