(* ===== verification/Dispatch.thy ===== *)
theory Dispatch
  imports Handlers
begin

text \<open>
  Correctness of the execution-server side of \<open>main_server.c\<close>: the liveness check, the dispatch of
  the oldest job, the return of a job whose server does not answer, and the state reports. The
  abstract counterpart of each is an operation on the \<open>service\<close> of \<open>Handlers\<close>.
\<close>

section \<open>The liveness check\<close>

lemma check_encode: "setCheckExecServer e m = encode e ChExecSer m"
  by simp

lemma check_ok:
  assumes "packet_size ChExecSer \<le> tx_credit sk" "sel_ev sk = SelReadable t # evs"
    and "t \<le> SELECT_SECONDS" "packet_size ChExecSerAck \<le> rx_credit sk"
    and "rx_bytes sk = wire_of ChExecSerAck @ rest"
  shows "\<exists>sk'. checkServerStatus en sk = Ok (1, sk') \<and> tx_bytes sk' = tx_bytes sk @ wire_of ChExecSer \<and>
           rx_bytes sk' = rest \<and> tx_credit sk \<le> tx_credit sk' + packet_size ChExecSer"
proof -
  let ?e = "en_host en" and ?m = "en_stack en"
  obtain sk1 where sk1: "sendMsg ?e sk (encode ?e ChExecSer ?m) = Ok (1, sk1)"
    "tx_bytes sk1 = tx_bytes sk @ wire_of ChExecSer" "rx_bytes sk1 = rx_bytes sk"
    "tx_credit sk \<le> tx_credit sk1 + packet_size ChExecSer" "rx_credit sk1 = rx_credit sk"
    using chan.send_ok [OF assms(1), of ?e ?m] by auto
  have sel: "sel_ev sk1 = sel_ev sk" using sendMsg_keeps [OF sk1(1)] by simp
  let ?sk2 = "sk1\<lparr>sel_ev := evs\<rparr>"
  have "packet_size ChExecSerAck \<le> rx_credit ?sk2" "rx_bytes ?sk2 = wire_of ChExecSerAck @ rest"
    using assms(4,5) sk1(3,5) by (simp_all add: rx_credit_def)
  from chan.recv_ok [OF this, of ?e "encode ?e ChExecSer ?m"] obtain sk3 where sk3:
    "recvMsg ?e ?sk2 (encode ?e ChExecSer ?m) =
       Ok (1, encode ?e ChExecSerAck (encode ?e ChExecSer ?m), sk3)"
    "rx_bytes sk3 = rest" "tx_bytes sk3 = tx_bytes sk1" "tx_credit sk3 = tx_credit sk1"
    by (auto simp: tx_credit_def)
  have "getType (encode ?e ChExecSerAck (encode ?e ChExecSer ?m)) = Type_u8 TYPE_CH_EXEC_SER_ACK"
    by (simp del: encode.simps Type_u8.simps)
  then have "checkServerStatus en sk = Ok (1, sk3)"
    using sk1(1) sk3(1) assms(2,3) sel
    by (simp add: checkServerStatus_def check_encode Let_def del: encode.simps Type_u8.simps)
  then show ?thesis using sk3 sk1 by simp
qed

text \<open>A server that does not answer within the timeout, whatever it sends later.\<close>

definition too_late :: "sel_ev \<Rightarrow> bool" where
  "too_late ev \<longleftrightarrow> (case ev of SelReadable t \<Rightarrow> SELECT_SECONDS < t | _ \<Rightarrow> True)"

lemma check_late:
  assumes "packet_size ChExecSer \<le> tx_credit sk" "sel_ev sk = ev # evs" "too_late ev"
  shows "\<exists>sk'. checkServerStatus en sk = Ok (0, sk') \<and> tx_bytes sk' = tx_bytes sk @ wire_of ChExecSer \<and>
           rx_bytes sk' = rx_bytes sk"
proof -
  let ?e = "en_host en" and ?m = "en_stack en"
  obtain sk1 where sk1: "sendMsg ?e sk (encode ?e ChExecSer ?m) = Ok (1, sk1)"
    "tx_bytes sk1 = tx_bytes sk @ wire_of ChExecSer" "rx_bytes sk1 = rx_bytes sk"
    using chan.send_ok [OF assms(1), of ?e ?m] by auto
  have "sel_ev sk1 = sel_ev sk" using sendMsg_keeps [OF sk1(1)] by simp
  then have "checkServerStatus en sk = Ok (0, sk1\<lparr>sel_ev := evs\<rparr>)"
    using sk1(1) assms(2,3)
    by (cases ev) (simp_all add: checkServerStatus_def check_encode Let_def too_late_def
        del: encode.simps Type_u8.simps)
  then show ?thesis using sk1 by simp
qed

section \<open>Dispatch\<close>

text \<open>The packet that carries a job.\<close>

definition job_packet :: "endian \<Rightarrow> Job_t \<Rightarrow> packet" where
  "job_packet e job =
     (if jb_ipaddr job = 0 then SendJobNoInter (jb_exec_file job) (jb_working_dir job) (jb_id job)
      else SendJobInter (jb_exec_file job) (jb_working_dir job) (ntohl e (jb_ipaddr job))
             (ntohs e (jb_port job)) (jb_id job))"

lemma jobMsg_encode: "jobMsg en job = encode (en_host en) (job_packet (en_host en) job) (en_stack en)"
  by (simp add: jobMsg_def job_packet_def)

lemma represents_frame [simp]:
  "represents (s\<lparr>queue2get := n\<rparr>) a = represents s a"
  "represents (s\<lparr>queue2put := n\<rparr>) a = represents s a"
  by (simp_all add: represents_def)

lemma represents_take:
  assumes "server_inv held s" "represents s a" "sv_queue a = job # jobs"
  obtains p ps where "qlist (q0 s) = p # ps" "mload p (job_mem s) = Ok job"
    "load_all ps (job_mem s) = Ok jobs"
proof -
  have "length (qlist (q0 s)) = Suc (length jobs)"
    using represents_length [OF assms(2)] assms(3) by simp
  then obtain p ps where "qlist (q0 s) = p # ps" by (cases "qlist (q0 s)") auto
  with assms(2,3) show ?thesis using that by (auto simp: represents_def bnd_eq_Ok_iff)
qed

lemma sendJob_ok:
  assumes inv: "server_inv {} s" and rep: "represents s a" and q: "sv_queue a = job # jobs"
    and tx: "packet_size ChExecSer + sizeof_Msg \<le> tx_credit sk"
    and sel: "sel_ev sk = SelReadable t # evs" "t \<le> SELECT_SECONDS"
    and rx: "packet_size ChExecSerAck \<le> rx_credit sk" "rx_bytes sk = wire_of ChExecSerAck @ rest"
  shows "\<exists>s' sk'. sendJob en s sk = Ok (True, s', sk') \<and> server_inv {} s' \<and>
           represents s' (a\<lparr>sv_queue := jobs\<rparr>) \<and>
           tx_bytes sk' = tx_bytes sk @ wire_of ChExecSer @ wire_of (job_packet (en_host en) job) \<and>
           rx_bytes sk' = rest"
proof -
  let ?e = "en_host en" and ?s1 = "s\<lparr>queue2get := queue2get s + 1\<rparr>"
  obtain p ps where p: "qlist (q0 s) = p # ps" "mload p (job_mem s) = Ok job"
    "load_all ps (job_mem s) = Ok jobs"
    using represents_take [OF inv rep q] .
  have inv1: "server_inv {} ?s1" "qlist (q0 ?s1) = p # ps" using inv p(1) by simp_all
  obtain q where q: "takeJob_at 0 ?s1 = Ok (p, ?s1\<lparr>queue := (queue ?s1)[0 := q]\<rparr>)" "qlist q = ps"
    "server_inv {p} (?s1\<lparr>queue := (queue ?s1)[0 := q]\<rparr>)"
    using takeJob_at_some [OF inv1] by blast
  let ?s2 = "?s1\<lparr>queue := (queue ?s1)[0 := q]\<rparr>"
  obtain sk1 where sk1: "checkServerStatus en sk = Ok (1, sk1)"
    "tx_bytes sk1 = tx_bytes sk @ wire_of ChExecSer" "rx_bytes sk1 = rest"
    "tx_credit sk \<le> tx_credit sk1 + packet_size ChExecSer"
    using check_ok [OF _ sel rx, of en] tx by auto
  have "packet_size (job_packet ?e job) \<le> tx_credit sk1"
    using packet_size_bounds(2) [of "job_packet ?e job"] tx sk1(4) by linarith
  from chan.send_ok [OF this, of ?e "en_stack en"] obtain sk2 where sk2:
    "sendMsg ?e sk1 (jobMsg en job) = Ok (1, sk2)"
    "tx_bytes sk2 = tx_bytes sk1 @ wire_of (job_packet ?e job)" "rx_bytes sk2 = rx_bytes sk1"
    by (auto simp: jobMsg_encode)
  have "p \<in> {p}" by simp
  from free_held_inv [OF q(3) this] obtain jm where jm: "mfree p (job_mem s) = Ok jm"
    "server_inv {} (?s2\<lparr>job_mem := jm\<rparr>)" "\<forall>r. r \<noteq> p \<longrightarrow> mload r jm = mload r (job_mem s)"
    by auto
  have "sendJob en s sk = Ok (True, ?s2\<lparr>job_mem := jm\<rparr>, sk2)"
    using q(1) sk1(1) p(2) sk2(1) jm(1) by (simp add: sendJob_def nextGet_eq)
  moreover have "load_all ps jm = load_all ps (job_mem s)"
    using jm(3) server_invD(5) [OF inv] p(1) by (intro load_all_cong) auto
  then have "represents (?s2\<lparr>job_mem := jm\<rparr>) (a\<lparr>sv_queue := jobs\<rparr>)"
    using rep q(2) p(3) server_invD(2) [OF inv] by (simp add: represents_def)
  ultimately show ?thesis using jm(2) sk1 sk2 by simp
qed

section \<open>Returning a job\<close>

text \<open>A job the history still has goes to the end of the queue.\<close>

lemma putJobBack_ok:
  assumes inv: "server_inv held s" and held: "p \<in> held" and job: "mload p (job_mem s) = Ok job"
    and jh: "lookup s (jb_id job) = Some jh"
    and room: "length (qlist (q0 s)) < MAX_JOBS_QUEUE" "0 < headroom (q0 s)"
  shows "\<exists>s'. putJobBack p s = Ok s' \<and> server_inv (held - {p}) s' \<and>
           qlist (q0 s') = qlist (q0 s) @ [p] \<and> job_mem s' = job_mem s \<and>
           history_putidx s' = history_putidx s \<and> lookup s' = lookup s"
proof -
  let ?s1 = "s\<lparr>queue2put := queue2put s + 1\<rparr>"
  have inv1: "server_inv held ?s1" using inv by simp
  obtain q where q: "putJob_at 0 p ?s1 = Ok (?s1\<lparr>queue := (queue ?s1)[0 := q]\<rparr>)"
    "qlist q = qlist (q0 s) @ [p]" "server_inv (held - {p}) (?s1\<lparr>queue := (queue ?s1)[0 := q]\<rparr>)"
    using putJob_at_room [OF inv1 held] room by auto
  let ?s2 = "?s1\<lparr>queue := (queue ?s1)[0 := q]\<rparr>" and ?f = "\<lambda>jh. jh\<lparr>jh_queue_idx := 0\<rparr>"
  have lk: "lookup ?s2 = lookup s" by simp
  obtain h where h: "amend findJob hist_set (jb_id job) ?f ?s2 = Ok (?s2\<lparr>hist_mem := h\<rparr>)"
    "server_inv (held - {p}) (?s2\<lparr>hist_mem := h\<rparr>)"
    "lookup (?s2\<lparr>hist_mem := h\<rparr>) = (lookup s)(jb_id job \<mapsto> ?f jh)"
    using amend_inv [OF q(3), of ?f "jb_id job"] jh unfolding lk by auto
  have "jh_queue_idx jh = 0" using server_invD(8) [OF inv jh] by (simp add: unat_eq_zero)
  then have "?f jh = jh" by (cases jh) simp
  then have same: "lookup (?s2\<lparr>hist_mem := h\<rparr>) = lookup s" using h(3) jh by auto
  have "putJobBack_find p 0 ?s2 = amend findJob hist_set (jb_id job) ?f ?s2"
    using findJob_eq [OF server_invD(1) [OF q(3)], of "jb_id job"] job jh
      linorder_not_le [THEN iffD2, OF id_slot_less [of "jb_id job"]]
    unfolding lk by (simp add: putJobBack_find_def amend_def JOB_HISTORY_MAX_def less_imp_le)
  then have "putJobBack p s = Ok (?s2\<lparr>hist_mem := h\<rparr>)"
    using q(1) h(1) by (simp add: putJobBack_def nextPut_eq)
  then show ?thesis
    using h(2) same q(2) server_invD(2) [OF inv] by (intro exI [of _ "?s2\<lparr>hist_mem := h\<rparr>"]) simp
qed

text \<open>A job the history has dropped is freed although the queue points to it.\<close>

lemma putJobBack_dangling:
  assumes inv: "server_inv held s" and held: "p \<in> held" and job: "mload p (job_mem s) = Ok job"
    and jh: "lookup s (jb_id job) = None"
    and room: "length (qlist (q0 s)) < MAX_JOBS_QUEUE" "0 < headroom (q0 s)"
  shows "\<exists>s'. putJobBack p s = Ok s' \<and> qlist (q0 s') = qlist (q0 s) @ [p] \<and>
           \<not> live (job_mem s') p \<and> queue_inv (q0 s')"
proof -
  let ?s1 = "s\<lparr>queue2put := queue2put s + 1\<rparr>"
  have inv1: "server_inv held ?s1" using inv by simp
  obtain q where q: "putJob_at 0 p ?s1 = Ok (?s1\<lparr>queue := (queue ?s1)[0 := q]\<rparr>)"
    "qlist q = qlist (q0 s) @ [p]" "server_inv (held - {p}) (?s1\<lparr>queue := (queue ?s1)[0 := q]\<rparr>)"
    using putJob_at_room [OF inv1 held] room by auto
  let ?s2 = "?s1\<lparr>queue := (queue ?s1)[0 := q]\<rparr>"
  have lv: "live (job_mem s) p" using job heap.fetch_iff by blast
  then obtain jm where jm: "mfree p (job_mem s) = Ok jm" using heap.release_ok by blast
  have "findJob (jb_id job) ?s2 = Ok (-1)"
    using hist.find_none [OF server_invD(1) [OF q(3)], of "jb_id job"] jh by simp
  then have "putJobBack_find p 0 ?s2 = Ok (?s2\<lparr>job_mem := jm\<rparr>)"
    using job jm by (simp add: putJobBack_find_def)
  then have "putJobBack p s = Ok (?s2\<lparr>job_mem := jm\<rparr>)"
    using q(1) by (simp add: putJobBack_def nextPut_eq)
  then show ?thesis
    using q(2) heap.release_self [OF lv jm] server_invD(2) [OF inv] server_invD(3) [OF q(3)]
    by (intro exI [of _ "?s2\<lparr>job_mem := jm\<rparr>"]) simp
qed

text \<open>\<open>sendJob\<close> to a server that is too late, up to the return of the job.\<close>

lemma sendJob_late:
  assumes inv: "server_inv {} s" and q: "qlist (q0 s) = p # ps"
    and tx: "packet_size ChExecSer \<le> tx_credit sk" and sel: "sel_ev sk = ev # evs" "too_late ev"
  shows "\<exists>s1 sk'. server_inv {p} s1 \<and> qlist (q0 s1) = ps \<and> headroom (q0 s1) = headroom (q0 s) \<and>
           job_mem s1 = job_mem s \<and> lookup s1 = lookup s \<and> history_putidx s1 = history_putidx s \<and>
           sendJob en s sk = bnd (putJobBack p s1) (\<lambda>s. Ok (False, s, sk')) \<and>
           tx_bytes sk' = tx_bytes sk @ wire_of ChExecSer \<and> rx_bytes sk' = rx_bytes sk"
proof -
  let ?s1 = "s\<lparr>queue2get := queue2get s + 1\<rparr>"
  have inv1: "server_inv {} ?s1" "qlist (q0 ?s1) = p # ps" using inv q by simp_all
  obtain q' where q': "takeJob_at 0 ?s1 = Ok (p, ?s1\<lparr>queue := (queue ?s1)[0 := q']\<rparr>)" "qlist q' = ps"
    "headroom q' = headroom (q0 s)" "server_inv {p} (?s1\<lparr>queue := (queue ?s1)[0 := q']\<rparr>)"
    using takeJob_at_some [OF inv1] by auto
  obtain sk' where sk': "checkServerStatus en sk = Ok (0, sk')"
    "tx_bytes sk' = tx_bytes sk @ wire_of ChExecSer" "rx_bytes sk' = rx_bytes sk"
    using check_late [OF tx sel, of en] by blast
  show ?thesis
    using q' sk' server_invD(2) [OF inv]
    by (intro exI [of _ "?s1\<lparr>queue := (queue ?s1)[0 := q']\<rparr>"] exI [of _ sk'])
      (simp add: sendJob_def nextGet_eq)
qed

lemma sendJob_requeues:
  assumes "server_inv {} s" "represents s a" "sv_queue a = job # jobs" "sv_hist a (jb_id job) \<noteq> None"
    and "0 < headroom (q0 s)" "packet_size ChExecSer \<le> tx_credit sk" "sel_ev sk = ev # evs" "too_late ev"
  shows "\<exists>s' sk'. sendJob en s sk = Ok (False, s', sk') \<and> server_inv {} s' \<and>
           represents s' (a\<lparr>sv_queue := jobs @ [job]\<rparr>) \<and>
           tx_bytes sk' = tx_bytes sk @ wire_of ChExecSer"
proof -
  obtain p ps where p: "qlist (q0 s) = p # ps" "mload p (job_mem s) = Ok job"
    "load_all ps (job_mem s) = Ok jobs"
    using represents_take [OF assms(1-3)] .
  obtain s1 sk' where s1: "server_inv {p} s1" "qlist (q0 s1) = ps" "headroom (q0 s1) = headroom (q0 s)"
    "job_mem s1 = job_mem s" "lookup s1 = lookup s" "history_putidx s1 = history_putidx s"
    "sendJob en s sk = bnd (putJobBack p s1) (\<lambda>s. Ok (False, s, sk'))"
    "tx_bytes sk' = tx_bytes sk @ wire_of ChExecSer"
    using sendJob_late [OF assms(1) p(1) assms(6-8), of en] by blast
  have "length ps < MAX_JOBS_QUEUE"
    using jq.contents_cap [OF server_invD(3) [OF assms(1)]] p(1) by simp
  moreover obtain jh where "lookup s1 (jb_id job) = Some jh"
    using assms(2,4) s1(5) by (auto simp: represents_def)
  ultimately obtain s' where s': "putJobBack p s1 = Ok s'" "server_inv {} s'"
    "qlist (q0 s') = ps @ [p]" "job_mem s' = job_mem s" "history_putidx s' = history_putidx s"
    "lookup s' = lookup s"
    using putJobBack_ok [OF s1(1), of p job jh] s1 p(2) assms(5) by auto
  then have "represents s' (a\<lparr>sv_queue := jobs @ [job]\<rparr>)"
    using assms(2) p by (simp add: represents_def load_all_append)
  with s' s1(7,8) show ?thesis by simp
qed

section \<open>Reports\<close>

definition sv_report :: "u16 \<Rightarrow> u8 \<Rightarrow> u8 \<Rightarrow> int \<Rightarrow> service \<Rightarrow> service" where
  "sv_report j st ex now a =
     (case sv_hist a j of
        None \<Rightarrow> a
      | Some jh \<Rightarrow> a\<lparr>sv_hist := (sv_hist a)(j \<mapsto> reported st ex now jh)\<rparr>)"

fun exec_spec :: "env \<Rightarrow> packet \<Rightarrow> service \<Rightarrow> service" where
  "exec_spec en (JobRun j) a = sv_report j (JOB_STATE_u8 STATE_RUN) 0 (en_time en) a"
| "exec_spec en (JobDone j x) a =
     sv_report j (JOB_STATE_u8 (if x = 40 \<or> x = 41 then STATE_ERROR else STATE_FINISHED)) x (en_time en) a"
| "exec_spec en (JobSig j x) a = sv_report j (JOB_STATE_u8 STATE_SIGNALED) x (en_time en) a"
| "exec_spec en p a = a"

lemma reported_keeps [simp]:
  "jh_id (reported st x now jh) = jh_id jh" "jh_queue_idx (reported st x now jh) = jh_queue_idx jh"
  by (simp_all add: reported_def Let_def)

lemma report_ok:
  assumes "server_inv held s" "represents s a" "st = getJobState_State pkg" "st \<in> set report_states"
  shows "\<exists>s'. changeStateJob e pkg now s = Ok s' \<and> server_inv held s' \<and>
           represents s' (sv_report (getJobState_ID e pkg) st (getJobState_ExitValue pkg) now a)"
proof -
  let ?j = "getJobState_ID e pkg" and ?f = "reported st (getJobState_ExitValue pkg) now"
  obtain h where h: "amend findJob hist_set ?j ?f s = Ok (s\<lparr>hist_mem := h\<rparr>)"
    "server_inv held (s\<lparr>hist_mem := h\<rparr>)"
    "lookup (s\<lparr>hist_mem := h\<rparr>) = (case lookup s ?j of None \<Rightarrow> lookup s | Some x \<Rightarrow> (lookup s)(?j \<mapsto> ?f x))"
    using amend_inv [OF assms(1), of ?f ?j] by auto
  have "represents (s\<lparr>hist_mem := h\<rparr>) (sv_report ?j st (getJobState_ExitValue pkg) now a)"
    using assms(2) h(3) by (auto simp: represents_def sv_report_def split: option.splits)
  then show ?thesis
    using h(1,2) changeStateJob_amend [OF server_invD(1) [OF assms(1)], of pkg e now] assms(3,4)
    by auto
qed

lemma exec_message_ok:
  assumes "server_inv {} s" "represents s a" "pk \<noteq> JobReq"
  shows "\<exists>s'. attendExecServ_msg en (encode (en_host en) pk buf) s sk = Ok (pk \<noteq> ServerClosed, s', sk) \<and>
           server_inv {} s' \<and> represents s' (exec_spec en pk a)"
proof (cases pk)
  case (JobDone j x)
  then show ?thesis
    using report_ok [OF assms(1,2) refl, of "encode (en_host en) pk buf" "en_host en" "en_time en"]
    by (auto simp: attendExecServ_msg_def Type_of_encode get_report report_states_def
        simp del: encode.simps Type_u8.simps JOB_STATE_u8.simps)
next
  case (JobRun j)
  then show ?thesis
    using report_ok [OF assms(1,2) refl, of "encode (en_host en) pk buf" "en_host en" "en_time en"]
    by (auto simp: attendExecServ_msg_def Type_of_encode get_report report_states_def
        simp del: encode.simps Type_u8.simps JOB_STATE_u8.simps)
next
  case (JobSig j x)
  then show ?thesis
    using report_ok [OF assms(1,2) refl, of "encode (en_host en) pk buf" "en_host en" "en_time en"]
    by (auto simp: attendExecServ_msg_def Type_of_encode get_report report_states_def
        simp del: encode.simps Type_u8.simps JOB_STATE_u8.simps)
qed (use assms in \<open>auto simp: attendExecServ_msg_def Type_of_encode
    simp del: encode.simps Type_u8.simps\<close>)

text \<open>A connection that only brings reports, until the server closes it.\<close>

fun report_all :: "(nat \<Rightarrow> env) \<Rightarrow> nat \<Rightarrow> packet list \<Rightarrow> service \<Rightarrow> service" where
  "report_all ens n [] a = a"
| "report_all ens n (pk # pks) a = report_all ens (Suc n) pks (exec_spec (ens n) pk a)"

lemma attendExecServ_step:
  assumes "packet_size pk \<le> rx_credit sk" "rx_bytes sk = wire_of pk @ rest" "e = en_host (ens n)"
  obtains sk1 where "attendExecServ ens n buf s sk =
       bnd (attendExecServ_msg (ens n) (encode e pk buf) s sk1) (\<lambda>(flag, s, sk).
         if flag then attendExecServ ens (Suc n) (encode e pk buf) s sk else Ok (s, sk))"
    "rx_bytes sk1 = rest" "tx_bytes sk1 = tx_bytes sk" "rx_credit sk \<le> rx_credit sk1 + packet_size pk"
proof -
  obtain sk1 where "recvMsg e sk buf = Ok (1, encode e pk buf, sk1)" "rx_bytes sk1 = rest"
    "tx_bytes sk1 = tx_bytes sk" "rx_credit sk \<le> rx_credit sk1 + packet_size pk"
    using chan.recv_ok [OF assms(1,2), of e buf] by blast
  then show ?thesis
    using that [of sk1] unfolding assms(3)
    by (simp add: attendExecServ.simps [of ens n buf s sk] del: encode.simps)
qed

lemma report_session:
  assumes "server_inv {} s" "represents s a" "JobReq \<notin> set pks" "ServerClosed \<notin> set pks"
    and "rx_bytes sk = concat (map wire_of pks) @ wire_of ServerClosed @ rest"
    and "sum_list (map packet_size pks) + packet_size ServerClosed \<le> rx_credit sk"
  shows "\<exists>s' sk'. attendExecServ ens n buf s sk = Ok (s', sk') \<and> server_inv {} s' \<and>
           represents s' (report_all ens n pks a) \<and> tx_bytes sk' = tx_bytes sk \<and> rx_bytes sk' = rest"
  using assms
proof (induction pks arbitrary: n s a sk buf)
  case Nil
  obtain sk1 where sk1: "attendExecServ ens n buf s sk =
       bnd (attendExecServ_msg (ens n) (encode (en_host (ens n)) ServerClosed buf) s sk1) (\<lambda>(flag, s, sk).
         if flag then attendExecServ ens (Suc n) (encode (en_host (ens n)) ServerClosed buf) s sk
         else Ok (s, sk))"
    "rx_bytes sk1 = rest" "tx_bytes sk1 = tx_bytes sk"
    using attendExecServ_step [of ServerClosed sk rest _ ens n buf s] Nil.prems(5,6) by auto
  then show ?case
    using exec_message_ok [OF Nil.prems(1,2), of ServerClosed "ens n" buf sk1]
    by (auto simp del: encode.simps)
next
  case (Cons pk pks)
  obtain sk1 where sk1: "attendExecServ ens n buf s sk =
       bnd (attendExecServ_msg (ens n) (encode (en_host (ens n)) pk buf) s sk1) (\<lambda>(flag, s, sk).
         if flag then attendExecServ ens (Suc n) (encode (en_host (ens n)) pk buf) s sk else Ok (s, sk))"
    "rx_bytes sk1 = concat (map wire_of pks) @ wire_of ServerClosed @ rest" "tx_bytes sk1 = tx_bytes sk"
    "rx_credit sk \<le> rx_credit sk1 + packet_size pk"
    using attendExecServ_step [of pk sk "concat (map wire_of pks) @ wire_of ServerClosed @ rest" _ ens n buf s]
      Cons.prems(5,6) by auto
  obtain s1 where s1: "attendExecServ_msg (ens n) (encode (en_host (ens n)) pk buf) s sk1 = Ok (True, s1, sk1)"
    "server_inv {} s1" "represents s1 (exec_spec (ens n) pk a)"
    using exec_message_ok [OF Cons.prems(1,2), of pk "ens n" buf sk1] Cons.prems(3,4) by auto
  show ?case
    using Cons.IH [OF s1(2,3) _ _ sk1(2), of "Suc n" "encode (en_host (ens n)) pk buf"] Cons.prems(3,4,6)
      s1(1) sk1(1,3,4) by (auto simp del: encode.simps)
qed

section \<open>Properties\<close>

text \<open>C10: dispatch. When the execution server acknowledges in time, \<open>sendJob\<close> sends the check and
  then exactly the oldest queued job, frees its block, removes it from the queue and keeps the
  connection; nothing else of the service changes (the job stays recorded as waiting until the
  server reports).\<close>

theorem dispatch_refines:
  assumes "server_inv {} s" "represents s a" "sv_queue a = job # jobs"
    and "packet_size ChExecSer + sizeof_Msg \<le> tx_credit sk"
    and "sel_ev sk = SelReadable t # evs" "t \<le> SELECT_SECONDS"
    and "packet_size ChExecSerAck \<le> rx_credit sk" "rx_bytes sk = wire_of ChExecSerAck @ rest"
  shows "\<exists>s' sk'. sendJob en s sk = Ok (True, s', sk') \<and> server_inv {} s' \<and>
           represents s' (a\<lparr>sv_queue := jobs\<rparr>) \<and>
           tx_bytes sk' = tx_bytes sk @ wire_of ChExecSer @ wire_of (job_packet (en_host en) job) \<and>
           rx_bytes sk' = rest"
  by (rule sendJob_ok [OF assms])

theorem dispatch_refines_witness:
  "\<exists>s' sk'. sendJob ex_env (ex_srv 2 2) ((ex_sock 530 (wire_of ChExecSerAck))\<lparr>sel_ev := [SelReadable 1]\<rparr>) =
       Ok (True, s', sk') \<and>
     represents s' \<lparr>sv_hist = Map.empty, sv_queue = [ex_job 1], sv_count = 0\<rparr> \<and>
     tx_bytes sk' = wire_of ChExecSer @ wire_of (SendJobNoInter [108, 115, 10, 0] [47, 0] 0)"
proof -
  let ?a = "\<lparr>sv_hist = Map.empty, sv_queue = [ex_job 0, ex_job 1], sv_count = 0\<rparr>"
  let ?sk = "(ex_sock 530 (wire_of ChExecSerAck))\<lparr>sel_ev := [SelReadable 1]\<rparr>"
  have "represents (ex_srv 2 2) ?a"
    using ex_srv_inv(2) [of 2 2] ex_srv_queue(2) [of 2 2]
    by (simp add: represents_def MAX_JOBS_QUEUE_def ex_srv_jobs upt_conv_Cons) (simp add: ex_srv_def)
  moreover have "server_inv {} (ex_srv 2 2)"
    using ex_srv_inv(1) [of 2 2] by (simp add: MAX_JOBS_QUEUE_def)
  moreover have "packet_size ChExecSer + sizeof_Msg \<le> tx_credit ?sk"
    "packet_size ChExecSerAck \<le> rx_credit ?sk" "(1 :: nat) \<le> SELECT_SECONDS"
    "rx_bytes ?sk = wire_of ChExecSerAck @ []" "tx_bytes ?sk = []"
    by (simp_all add: sizeof_Msg_eq sizeof_Header_def SELECT_SECONDS_def ex_sock_def tx_credit_def
        rx_credit_def)
  moreover have "job_packet LE (ex_job 0) = SendJobNoInter [108, 115, 10, 0] [47, 0] 0"
    by (simp add: job_packet_def ex_job_def)
  ultimately show ?thesis
    using dispatch_refines [of "ex_srv 2 2" ?a "ex_job 0" "[ex_job 1]" ?sk 1 "[]" "[]" ex_env]
    by (auto simp: ex_env_def)
qed



text \<open>C11: the reports of an execution server. Every message other than a job request does to the
  server what \<open>exec_spec\<close> does to the abstract service (a run, done or signal report of a known job
  changes that job's record only, everything else changes nothing), keeps the invariant, and ends
  the connection only when the server closes it.\<close>

theorem exec_message_refines:
  assumes "server_inv {} s" "represents s a" "pk \<noteq> JobReq"
  shows "\<exists>s'. attendExecServ_msg en (encode (en_host en) pk buf) s sk =
             Ok (pk \<noteq> ServerClosed, s', sk) \<and>
           server_inv {} s' \<and> represents s' (exec_spec en pk a)"
  by (rule exec_message_ok [OF assms])

theorem exec_message_refines_witness:
  "\<exists>s'. attendExecServ_msg ex_env (encode LE (JobDone 0 3) (\<lambda>_. 0)) (ex_srv_hist 0 0) (ex_sock 0 []) =
       Ok (True, s', ex_sock 0 []) \<and>
     lookup s' 0 = Some ((ex_hist 0)\<lparr>jh_state := 2, jh_exit_status := 3, jh_endProcTime := 1000\<rparr>)"
proof -
  let ?a = "\<lparr>sv_hist = [0 \<mapsto> ex_hist 0], sv_queue = [], sv_count = 1\<rparr>"
  have "represents (ex_srv_hist 0 0) ?a"
    using ex_srv_hist_inv(2) [of 0 0] ex_srv_queue(2) [of 0 0]
    by (simp add: represents_def ex_srv_hist_fields) (simp add: ex_srv_hist_def)
  moreover have "server_inv {} (ex_srv_hist 0 0)" using ex_srv_hist_inv(1) [of 0 0] by simp
  ultimately show ?thesis
    using exec_message_refines [of "ex_srv_hist 0 0" ?a "JobDone 0 3" ex_env "\<lambda>_. 0" "ex_sock 0 []"]
    by (auto simp: represents_def ex_env_def sv_report_def reported_def Let_def)
qed

text \<open>C31: \<open>putJobBack\<close> frees a job it has just queued. If the server that was to get the job is late
  and the job's record has left the history meanwhile, the block is freed while the queue still
  points to it, and the next dispatch from that queue reads freed memory.\<close>

theorem evicted_job_dangles:
  assumes "server_inv {} s" "qlist (q0 s) = [p]" "mload p (job_mem s) = Ok job"
    and "lookup s (jb_id job) = None" "0 < headroom (q0 s)"
    and "packet_size ChExecSer \<le> tx_credit sk" "sel_ev sk = ev # evs" "too_late ev"
    and "packet_size ChExecSer \<le> tx_credit sk2" "sel_ev sk2 = SelReadable t # evs2"
      "t \<le> SELECT_SECONDS" "packet_size ChExecSerAck \<le> rx_credit sk2"
      "rx_bytes sk2 = wire_of ChExecSerAck @ rest"
  shows "\<exists>s' sk'. sendJob en s sk = Ok (False, s', sk') \<and> qlist (q0 s') = [p] \<and>
           \<not> live (job_mem s') p \<and> (\<exists>f. sendJob en2 s' sk2 = Fail f)"
proof -
  obtain s1 sk' where s1: "server_inv {p} s1" "qlist (q0 s1) = []" "headroom (q0 s1) = headroom (q0 s)"
    "job_mem s1 = job_mem s" "lookup s1 = lookup s"
    "sendJob en s sk = bnd (putJobBack p s1) (\<lambda>s. Ok (False, s, sk'))"
    using sendJob_late [OF assms(1,2,6-8), of en] by blast
  obtain s' where s': "putJobBack p s1 = Ok s'" "qlist (q0 s') = [p]" "\<not> live (job_mem s') p"
    "queue_inv (q0 s')"
    using putJobBack_dangling [OF s1(1), of p job] s1 assms(3-5) by (auto simp: MAX_JOBS_QUEUE_def)
  obtain q where q: "takeJob (q0 s') = Ok (p, q)" using jq.take_ok [OF s'(4,2)] by blast
  obtain sk3 where sk3: "checkServerStatus en2 sk2 = Ok (1, sk3)"
    using check_ok [OF assms(9-13), of en2] by blast
  obtain f where "mload p (job_mem s') = Fail f"
    using s'(3) heap.fetch_iff [of "job_mem s'" p]
    by (cases "mload p (job_mem s')") (auto simp: mload_def split: ptr.splits option.splits)
  then have "sendJob en2 s' sk2 = Fail f"
    using q sk3 by (simp add: sendJob_def nextGet_eq takeJob_at_def)
  then show ?thesis using s' s1(6) by auto
qed

theorem evicted_job_dangles_witness:
  "\<exists>s' sk'. sendJob ex_env (ex_srv 1 1) ((ex_sock 5 [])\<lparr>sel_ev := [SelNever]\<rparr>) = Ok (False, s', sk') \<and>
     qlist (q0 s') = [At 0] \<and> \<not> live (job_mem s') (At 0) \<and>
     (\<exists>f. sendJob ex_env s' ((ex_sock 5 (wire_of ChExecSerAck))\<lparr>sel_ev := [SelReadable 0]\<rparr>) = Fail f)"
proof (rule evicted_job_dangles [where job = "ex_job 0" and ev = SelNever and evs = "[]" and t = 0
      and ?evs2.0 = "[]" and rest = "[]"])
  show "server_inv {} (ex_srv 1 1)" "lookup (ex_srv 1 1) (jb_id (ex_job 0)) = None"
    using ex_srv_inv [of 1 1] by (simp_all add: MAX_JOBS_QUEUE_def)
  show "qlist (q0 (ex_srv 1 1)) = [At 0]" "0 < headroom (q0 (ex_srv 1 1))"
    using ex_srv_queue(2,3) [of 1 1] by (simp_all add: MAX_JOBS_QUEUE_def)
qed (simp_all add: ex_srv_jobs sizeof_Header_def SELECT_SECONDS_def ex_sock_def tx_credit_def
    rx_credit_def too_late_def)

end
