(* ===== verification/Threads.thy ===== *)
theory Threads
  imports Dispatch
begin

text \<open>
  The main server as a system of threads. Each client and each execution server has a thread of its
  own, and the handlers of \<open>MainServer\<close> release the mutexes between their critical sections; here
  one step is one critical section, and a thread that is between two of them is recorded with what
  it remembers. The safe fragment (submissions, dispatches, reports, enquiries) keeps the invariant
  in every interleaving; withdrawing and returning a job do not, and the last section has schedules
  that show it.
\<close>

section \<open>Threads between critical sections\<close>

datatype thread =
    PNew ptr nat      \<comment> \<open>\<open>newJob\<close>: recorded and answered, about to call \<open>putJob\<close>\<close>
  | PHeld ptr         \<comment> \<open>\<open>sendJob\<close>: has taken the job, talks to the execution server\<close>
  | PBack ptr nat     \<comment> \<open>\<open>putJobBack\<close>: about to call \<open>putJob\<close>\<close>
  | PFind ptr nat     \<comment> \<open>\<open>putJobBack\<close>: the job is in the queue again, about to look up its id\<close>
  | PRemove u16 u8    \<comment> \<open>\<open>unsubmit\<close>: the job was waiting, about to call \<open>removeJob\<close>\<close>
  | PMark u16         \<comment> \<open>\<open>unsubmit\<close>: about to mark the record\<close>

text \<open>\<open>gone\<close> is a ghost: the ids of the jobs that were sent to an execution server.\<close>

record system =
  srv :: server
  threads :: "thread list"
  gone :: "u16 list"

datatype act =
    ASubmit env Job_t sock  \<comment> \<open>a submission up to the call of \<open>putJob\<close>\<close>
  | APut nat                \<comment> \<open>\<open>putJob\<close> of a thread\<close>
  | AGet                    \<comment> \<open>a job request: the oldest job is taken\<close>
  | ASent nat               \<comment> \<open>the job was sent, its block is freed\<close>
  | AFailed nat             \<comment> \<open>the server did not answer: \<open>putJobBack\<close> starts\<close>
  | AFind nat               \<comment> \<open>the end of \<open>putJobBack\<close>\<close>
  | AReport endian mem int  \<comment> \<open>a state report\<close>
  | AState u16              \<comment> \<open>a state enquiry\<close>
  | AUnsub u16              \<comment> \<open>\<open>unsubmit\<close>, first section\<close>
  | ARemove nat             \<comment> \<open>\<open>unsubmit\<close>, second section\<close>
  | AMark nat               \<comment> \<open>\<open>unsubmit\<close>, third section\<close>

definition del :: "nat \<Rightarrow> 'a list \<Rightarrow> 'a list" where
  "del i xs = take i xs @ drop (Suc i) xs"

definition thread_at :: "nat \<Rightarrow> system \<Rightarrow> thread option" where
  "thread_at i c = (if i < length (threads c) then Some (threads c ! i) else None)"

text \<open>One step. \<open>Wait\<close> means that the step is not possible now.\<close>

fun exec_act :: "act \<Rightarrow> system \<Rightarrow> system outcome" where
  "exec_act (ASubmit en job sk) c =
     (let (p, jm) = malloc job (job_mem (srv c))
      in bnd (newJob_record en p ((srv c)\<lparr>job_mem := jm\<rparr>) sk) (\<lambda>(qi, s, sk).
           Ok (c\<lparr>srv := s, threads := threads c @ [PNew p qi]\<rparr>)))"
| "exec_act (APut i) c =
     (case thread_at i c of
        Some (PNew p qi) \<Rightarrow>
          bnd (putJob_at qi p (srv c)) (\<lambda>s. Ok (c\<lparr>srv := s, threads := del i (threads c)\<rparr>))
      | Some (PBack p qi) \<Rightarrow>
          bnd (putJob_at qi p (srv c)) (\<lambda>s. Ok (c\<lparr>srv := s, threads := (threads c)[i := PFind p qi]\<rparr>))
      | _ \<Rightarrow> Wait)"
| "exec_act AGet c =
     (let (qi, s) = nextGet (srv c)
      in bnd (takeJob_at qi s) (\<lambda>(p, s). Ok (c\<lparr>srv := s, threads := threads c @ [PHeld p]\<rparr>)))"
| "exec_act (ASent i) c =
     (case thread_at i c of
        Some (PHeld p) \<Rightarrow>
          bnd (mload p (job_mem (srv c))) (\<lambda>job.
          bnd (mfree p (job_mem (srv c))) (\<lambda>jm.
            Ok (c\<lparr>srv := (srv c)\<lparr>job_mem := jm\<rparr>, threads := del i (threads c),
                  gone := gone c @ [jb_id job]\<rparr>)))
      | _ \<Rightarrow> Wait)"
| "exec_act (AFailed i) c =
     (case thread_at i c of
        Some (PHeld p) \<Rightarrow>
          (let (qi, s) = nextPut (srv c) in Ok (c\<lparr>srv := s, threads := (threads c)[i := PBack p qi]\<rparr>))
      | _ \<Rightarrow> Wait)"
| "exec_act (AFind i) c =
     (case thread_at i c of
        Some (PFind p qi) \<Rightarrow>
          bnd (putJobBack_find p qi (srv c)) (\<lambda>s. Ok (c\<lparr>srv := s, threads := del i (threads c)\<rparr>))
      | _ \<Rightarrow> Wait)"
| "exec_act (AReport e pkg now) c = bnd (changeStateJob e pkg now (srv c)) (\<lambda>s. Ok (c\<lparr>srv := s\<rparr>))"
| "exec_act (AState j) c =
     bnd (findJob j (srv c)) (\<lambda>idx.
       if idx < 0 \<or> idx \<ge> int JOB_HISTORY_MAX then Ok c
       else bnd (hist_at idx (srv c)) (\<lambda>_. Ok c))"
| "exec_act (AUnsub j) c =
     bnd (unsubmit_check j (srv c)) (\<lambda>r.
       case r of None \<Rightarrow> Ok c | Some q \<Rightarrow> Ok (c\<lparr>threads := threads c @ [PRemove j q]\<rparr>))"
| "exec_act (ARemove i) c =
     (case thread_at i c of
        Some (PRemove j q) \<Rightarrow>
          bnd (unsubmit_remove j q (srv c)) (\<lambda>s. Ok (c\<lparr>srv := s, threads := (threads c)[i := PMark j]\<rparr>))
      | _ \<Rightarrow> Wait)"
| "exec_act (AMark i) c =
     (case thread_at i c of
        Some (PMark j) \<Rightarrow>
          bnd (unsubmit_mark j (srv c)) (\<lambda>s. Ok (c\<lparr>srv := s, threads := del i (threads c)\<rparr>))
      | _ \<Rightarrow> Wait)"

declare exec_act.simps [simp del]

text \<open>A schedule; a step that is not possible is skipped.\<close>

fun run_acts :: "act list \<Rightarrow> system \<Rightarrow> system outcome" where
  "run_acts [] c = Ok c"
| "run_acts (a # as) c =
     (case exec_act a c of Ok c \<Rightarrow> run_acts as c | Wait \<Rightarrow> run_acts as c | Fail f \<Rightarrow> Fail f)"

definition init_system :: system where
  "init_system = \<lparr>srv = init_server, threads = [], gone = []\<rparr>"

text \<open>The steps of the safe fragment: a submission whose answer can be sent, a report with a state
  that \<open>changeStateJob\<close> accepts.\<close>

fun safe_act :: "act \<Rightarrow> bool" where
  "safe_act (ASubmit en job sk) = (packet_size (SubResp 0) \<le> tx_credit sk)"
| "safe_act (APut i) = True"
| "safe_act AGet = True"
| "safe_act (ASent i) = True"
| "safe_act (AReport e pkg now) = (getJobState_State pkg \<in> set report_states)"
| "safe_act (AState j) = True"
| "safe_act _ = False"

text \<open>The systems reachable from the start in \<open>n\<close> safe steps.\<close>

inductive reach :: "nat \<Rightarrow> system \<Rightarrow> bool" where
  reach_init: "reach 0 init_system"
| reach_step: "reach n c \<Longrightarrow> safe_act a \<Longrightarrow> exec_act a c = Ok c' \<Longrightarrow> reach (Suc n) c'"

inductive_cases reach_0E: "reach 0 c"
inductive_cases reach_SucE: "reach (Suc n) c"

section \<open>Invariant\<close>

primrec pptr :: "thread \<Rightarrow> ptr list" where
  "pptr (PNew p qi) = [p]"
| "pptr (PHeld p) = [p]"
| "pptr (PBack p qi) = [p]"
| "pptr (PFind p qi) = []"
| "pptr (PRemove j q) = []"
| "pptr (PMark j) = []"

definition held_ptrs :: "thread list \<Rightarrow> ptr list" where
  "held_ptrs ts = concat (map pptr ts)"

fun plain :: "thread \<Rightarrow> bool" where
  "plain (PNew p qi) = (qi = 0)"
| "plain (PHeld p) = True"
| "plain _ = False"

definition id_at :: "job_heap \<Rightarrow> ptr \<Rightarrow> u16" where
  "id_at h p = (case mload p h of Ok job \<Rightarrow> jb_id job | _ \<Rightarrow> 0)"

text \<open>Every id given out is exactly once in the queue, with a thread, or sent.\<close>

definition accounted :: "system \<Rightarrow> bool" where
  "accounted c \<longleftrightarrow>
     image_mset (id_at (job_mem (srv c))) (mset (qlist (q0 (srv c))) + mset (held_ptrs (threads c))) +
       mset (gone c) =
     mset (map of_nat [0..<unat (history_putidx (srv c))])"

definition sys_inv :: "nat \<Rightarrow> system \<Rightarrow> bool" where
  "sys_inv n c \<longleftrightarrow>
     server_inv (set (held_ptrs (threads c))) (srv c) \<and> distinct (held_ptrs (threads c)) \<and>
     (\<forall>t\<in>set (threads c). plain t) \<and>
     unat (history_putidx (srv c)) \<le> n \<and> 2 ^ 32 - 1 \<le> headroom (q0 (srv c)) + n \<and> accounted c \<and>
     (unat (history_putidx (srv c)) \<le> 65536 \<longrightarrow> hist_exact (srv c) \<and> hist_tight (srv c))"

lemma held_ptrs_simps [simp]:
  "held_ptrs [] = []" "held_ptrs (t # ts) = pptr t @ held_ptrs ts"
  "held_ptrs (ts @ us) = held_ptrs ts @ held_ptrs us"
  by (simp_all add: held_ptrs_def)

lemma thread_at_SomeE:
  assumes "thread_at i c = Some t"
  obtains ts us where "threads c = ts @ t # us" "length ts = i" "del i (threads c) = ts @ us"
  using assms id_take_nth_drop [of i "threads c"]
  by (force simp: thread_at_def del_def split: if_splits)

lemma id_at_cong: "mload p h = mload p h' \<Longrightarrow> id_at h p = id_at h' p"
  by (simp add: id_at_def)

lemma accounted_cong:
  assumes "\<And>p. p \<in> set (qlist (q0 (srv c))) \<union> set (held_ptrs (threads c)) \<Longrightarrow>
      mload p (job_mem s) = mload p (job_mem (srv c))"
  shows "image_mset (id_at (job_mem s))
       (mset (qlist (q0 (srv c))) + mset (held_ptrs (threads c))) =
     image_mset (id_at (job_mem (srv c)))
       (mset (qlist (q0 (srv c))) + mset (held_ptrs (threads c)))"
  using assms by (intro image_mset_cong id_at_cong) auto

lemma sys_invD:
  assumes "sys_inv n c"
  shows "server_inv (set (held_ptrs (threads c))) (srv c)" "distinct (held_ptrs (threads c))"
    "t \<in> set (threads c) \<Longrightarrow> plain t" "unat (history_putidx (srv c)) \<le> n"
    "2 ^ 32 - 1 \<le> headroom (q0 (srv c)) + n"
    "unat (history_putidx (srv c)) \<le> 65536 \<Longrightarrow> hist_exact (srv c) \<and> hist_tight (srv c)"
    "image_mset (id_at (job_mem (srv c))) (mset (qlist (q0 (srv c))) + mset (held_ptrs (threads c))) +
       mset (gone c) = mset (map of_nat [0..<unat (history_putidx (srv c))])"
  using assms by (auto simp: sys_inv_def accounted_def)

lemma hist_exact_cong:
  "lookup s = lookup t \<Longrightarrow> history_putidx s = history_putidx t \<Longrightarrow> hist_exact s = hist_exact t"
  by (simp add: hist_exact_def)

lemma hist_tight_cong:
  "hist_mem s = hist_mem t \<Longrightarrow> history_putidx s = history_putidx t \<Longrightarrow> job_array s = job_array t \<Longrightarrow>
   hist_tight s = hist_tight t"
  by (simp add: hist_tight_def filled_def)

lemma hist_frames [simp]:
  "hist_exact (s\<lparr>job_mem := x\<rparr>) = hist_exact s" "hist_exact (s\<lparr>queue := y\<rparr>) = hist_exact s"
  "hist_exact (s\<lparr>queue2get := n\<rparr>) = hist_exact s" "hist_exact (s\<lparr>queue2put := n\<rparr>) = hist_exact s"
  "hist_tight (s\<lparr>job_mem := x\<rparr>) = hist_tight s" "hist_tight (s\<lparr>queue := y\<rparr>) = hist_tight s"
  "hist_tight (s\<lparr>queue2get := n\<rparr>) = hist_tight s" "hist_tight (s\<lparr>queue2put := n\<rparr>) = hist_tight s"
  by (simp_all add: hist_exact_def hist_tight_def filled_def)

lemma sys_inv_init: "sys_inv 0 init_system"
proof -
  have "qlist (q0 init_server) = []" "history_putidx init_server = 0" "lookup init_server = Map.empty"
    using init_server_ok(3) represents_length [OF init_server_ok(3)]
    by (simp_all add: represents_def init_service_def)
  then show ?thesis
    using init_server_ok(2,4) hist_tight_init
    by (simp add: sys_inv_def init_system_def accounted_def hist_exact_def)
qed

lemma submit_step:
  assumes inv: "sys_inv n c" and n: "n < 2 ^ 32 - 1" and cr: "packet_size (SubResp 0) \<le> tx_credit sk"
  shows "\<exists>c'. exec_act (ASubmit en job sk) c = Ok c' \<and> sys_inv (Suc n) c'"
proof -
  let ?s = "srv c" and ?H = "held_ptrs (threads c)"
  define jid where "jid = (ucast (history_putidx ?s) :: u16)"
  obtain p jm where al: "malloc job (job_mem ?s) = (p, jm)" by fastforce
  let ?s1 = "?s\<lparr>job_mem := jm\<rparr>"
  note a1 = alloc_job_inv [OF sys_invD(1) [OF inv] al]
  obtain sk' where sk': "submittedResponse en jid sk = Ok sk'"
    using reply_ok [of "SubResp jid" sk "en_host en" "en_stack en"] cr
    by (auto simp: submittedResponse_def)
  have pre: "p \<in> insert p (set ?H)" "mload p (job_mem ?s1) = Ok job"
    "unat (history_putidx ?s1) < 2 ^ 32 - 1" "jid = ucast (history_putidx ?s1)"
    using a1(2) sys_invD(4) [OF inv] n by (auto simp: jid_def)
  have lk1: "lookup ?s1 = lookup ?s" by simp
  obtain s' ph where s': "newJob_record en p ?s1 sk = Ok (0, s', sk')"
    "server_inv (insert p (set ?H)) s'" "queue s' = queue ?s"
    "history_putidx s' = history_putidx ?s + 1"
    "lookup s' = (\<lambda>k. if k = jid then Some (new_hist en job jid)
                     else if id_slot k = id_slot jid then None else lookup ?s k)"
    "mload p (job_mem s') = Ok (job\<lparr>jb_id := jid\<rparr>)"
    "\<forall>q. q \<noteq> p \<longrightarrow> mload q (job_mem s') = mload q jm"
    "job_array s' = (job_array ?s)[id_slot jid := ph]"
    "\<forall>q. live (hist_mem s') q \<longleftrightarrow> q = ph \<or> live (hist_mem ?s) q \<and>
       \<not> (10 \<le> unat jid \<and> q = job_array ?s ! id_slot jid)"
    using newJob_record_ok [OF a1(1) pre sk', unfolded lk1] by auto
  let ?c = "c\<lparr>srv := s', threads := threads c @ [PNew p 0]\<rparr>"
  have cnt: "unat (history_putidx s') = Suc (unat (history_putidx ?s))"
    using sys_invD(4) [OF inv] n by (simp add: s'(4) unat_word_ariths)
  have "image_mset (id_at (job_mem s')) (mset (qlist (q0 ?s)) + mset ?H) =
      image_mset (id_at (job_mem ?s)) (mset (qlist (q0 ?s)) + mset ?H)"
    using s'(7) a1(3,4,5) by (intro accounted_cong) (metis Un_iff)
  then have "accounted ?c"
    using sys_invD(7) [OF inv] s'(6)
    by (simp add: accounted_def s'(3) cnt id_at_def jid_def of_nat_unat)
  moreover have "hist_exact s' \<and> hist_tight s'" if "unat (history_putidx s') \<le> 65536"
  proof -
    have lt: "unat (history_putidx ?s) < 65536" using that cnt by simp
    then have "hist_exact ?s" "hist_tight ?s" using sys_invD(6) [OF inv] by auto
    then show ?thesis
      using registerJob_exact [OF _ lt jid_def s'(4,5)]
        hist_tight_register [OF server_invD(1) [OF sys_invD(1) [OF inv]] _ lt jid_def s'(8,4,9)] by blast
  qed
  ultimately have "sys_inv (Suc n) ?c"
    using s'(2,3) sys_invD(2-5) [OF inv] a1(3) cnt unfolding sys_inv_def by auto
  then show ?thesis using al s'(1) by (simp add: exec_act.simps)
qed

text \<open>A thread that puts: it waits exactly when the queue is full.\<close>

lemma put_step:
  assumes inv: "sys_inv n c" and n: "n < 2 ^ 32 - 1" and t: "thread_at i c = Some (PNew p 0)"
  shows "if length (qlist (q0 (srv c))) = MAX_JOBS_QUEUE then exec_act (APut i) c = Wait
         else \<exists>c'. exec_act (APut i) c = Ok c' \<and> sys_inv (Suc n) c' \<and>
                threads c' = del i (threads c) \<and> length (qlist (q0 (srv c'))) = Suc (length (qlist (q0 (srv c)))) \<and>
                history_putidx (srv c') = history_putidx (srv c)"
proof -
  let ?s = "srv c"
  obtain ts us where ts: "threads c = ts @ PNew p 0 # us" "del i (threads c) = ts @ us"
    using thread_at_SomeE [OF t] by blast
  note sinv = sys_invD(1) [OF inv]
  show ?thesis
  proof (cases "length (qlist (q0 ?s)) = MAX_JOBS_QUEUE")
    case True
    then show ?thesis using putJob_at_full [OF sinv True] t by (simp add: exec_act.simps)
  next
    case False
    then have room: "length (qlist (q0 ?s)) < MAX_JOBS_QUEUE" "0 < headroom (q0 ?s)"
      using jq.contents_cap [OF server_invD(3) [OF sinv]] sys_invD(5) [OF inv] n by auto
    have "p \<in> set (held_ptrs (threads c))" using ts by simp
    from putJob_at_room [OF sinv this room] obtain q where q:
      "putJob_at 0 p ?s = Ok (?s\<lparr>queue := (queue ?s)[0 := q]\<rparr>)" "qlist q = qlist (q0 ?s) @ [p]"
      "headroom q = headroom (q0 ?s) - 1"
      "server_inv (set (held_ptrs (threads c)) - {p}) (?s\<lparr>queue := (queue ?s)[0 := q]\<rparr>)"
      by blast
    have len: "length (queue ?s) = 1" by (rule server_invD(2) [OF sinv])
    have held: "set (held_ptrs (threads c)) - {p} = set (held_ptrs (ts @ us))"
      using sys_invD(2) [OF inv] ts(1) by auto
    let ?c = "c\<lparr>srv := ?s\<lparr>queue := (queue ?s)[0 := q]\<rparr>, threads := ts @ us\<rparr>"
    have "accounted ?c"
      using sys_invD(7) [OF inv] q(2) ts(1) len by (simp add: accounted_def add_ac)
    then have "sys_inv (Suc n) ?c"
      using q(2,3,4) sys_invD(2-6) [OF inv] ts(1) len room held unfolding sys_inv_def by auto
    then show ?thesis using False t q(1,2) ts(2) len by (simp add: exec_act.simps)
  qed
qed

lemma get_step:
  assumes inv: "sys_inv n c"
  shows "if qlist (q0 (srv c)) = [] then exec_act AGet c = Wait
         else \<exists>c' p. exec_act AGet c = Ok c' \<and> sys_inv (Suc n) c' \<and>
                threads c' = threads c @ [PHeld p] \<and> qlist (q0 (srv c)) = p # qlist (q0 (srv c')) \<and>
                history_putidx (srv c') = history_putidx (srv c)"
proof -
  let ?s = "(srv c)\<lparr>queue2get := queue2get (srv c) + 1\<rparr>"
  have sinv: "server_inv (set (held_ptrs (threads c))) ?s" using sys_invD(1) [OF inv] by simp
  show ?thesis
  proof (cases "qlist (q0 (srv c))")
    case Nil
    then show ?thesis using takeJob_at_empty [OF sinv] by (simp add: exec_act.simps nextGet_eq)
  next
    case (Cons p ps)
    then obtain q where q: "takeJob_at 0 ?s = Ok (p, ?s\<lparr>queue := (queue ?s)[0 := q]\<rparr>)" "qlist q = ps"
      "headroom q = headroom (q0 (srv c))" "p \<notin> set (held_ptrs (threads c))"
      "server_inv (insert p (set (held_ptrs (threads c)))) (?s\<lparr>queue := (queue ?s)[0 := q]\<rparr>)"
      using takeJob_at_some [OF sinv, of p ps] by auto
    have len: "length (queue (srv c)) = 1" using server_invD(2) [OF sinv] by simp
    let ?c = "c\<lparr>srv := ?s\<lparr>queue := (queue ?s)[0 := q]\<rparr>, threads := threads c @ [PHeld p]\<rparr>"
    have "accounted ?c"
      using sys_invD(7) [OF inv] q(2) Cons len by (simp add: accounted_def)
    then have "sys_inv (Suc n) ?c"
      using q(3,4,5) sys_invD(2-6) [OF inv] len unfolding sys_inv_def by auto
    then show ?thesis using Cons q(1,2) len by (simp add: exec_act.simps nextGet_eq)
  qed
qed

lemma sent_step:
  assumes inv: "sys_inv n c" and t: "thread_at i c = Some (PHeld p)"
  shows "\<exists>c'. exec_act (ASent i) c = Ok c' \<and> sys_inv (Suc n) c' \<and> threads c' = del i (threads c) \<and>
           qlist (q0 (srv c')) = qlist (q0 (srv c)) \<and> history_putidx (srv c') = history_putidx (srv c)"
proof -
  let ?s = "srv c"
  obtain ts us where ts: "threads c = ts @ PHeld p # us" "del i (threads c) = ts @ us"
    using thread_at_SomeE [OF t] by blast
  note sinv = sys_invD(1) [OF inv]
  have p: "p \<in> set (held_ptrs (threads c))" using ts by simp
  have "live (job_mem ?s) p" using server_invD(7) [OF sinv] p by blast
  then obtain job where job: "mload p (job_mem ?s) = Ok job"
    using heap.fetch_iff [of "job_mem ?s" p] by blast
  obtain jm where jm: "mfree p (job_mem ?s) = Ok jm"
    "server_inv (set (held_ptrs (threads c)) - {p}) (?s\<lparr>job_mem := jm\<rparr>)"
    "\<forall>q. q \<noteq> p \<longrightarrow> mload q jm = mload q (job_mem ?s)"
    using free_held_inv [OF sinv p] by blast
  have held: "set (held_ptrs (threads c)) - {p} = set (held_ptrs (ts @ us))"
    "p \<notin> set (held_ptrs (ts @ us))"
    using sys_invD(2) [OF inv] unfolding ts(1) by auto
  have nq: "p \<notin> set (qlist (q0 ?s))" using server_invD(6) [OF sinv] p by blast
  let ?c = "c\<lparr>srv := ?s\<lparr>job_mem := jm\<rparr>, threads := ts @ us, gone := gone c @ [jb_id job]\<rparr>"
  have "image_mset (id_at jm) (mset (qlist (q0 ?s)) + mset (held_ptrs (ts @ us))) =
      image_mset (id_at (job_mem ?s)) (mset (qlist (q0 ?s)) + mset (held_ptrs (ts @ us)))"
    using jm(3) held(2) nq by (intro image_mset_cong id_at_cong) auto
  moreover have "id_at (job_mem ?s) p = jb_id job" using job by (simp add: id_at_def)
  ultimately have "accounted ?c"
    using sys_invD(7) [OF inv] ts(1) by (simp add: accounted_def)
  moreover have "server_inv (set (held_ptrs (ts @ us))) (?s\<lparr>job_mem := jm\<rparr>)"
    using jm(2) unfolding held(1) .
  moreover have "distinct (held_ptrs (ts @ us))" "\<forall>t\<in>set (ts @ us). plain t"
    using sys_invD(2,3) [OF inv] unfolding ts(1) by auto
  ultimately have "sys_inv (Suc n) ?c"
    using sys_invD(4-6) [OF inv] by (simp add: sys_inv_def)
  then show ?thesis using t job jm(1) ts(2) by (simp add: exec_act.simps)
qed

lemma report_step:
  assumes inv: "sys_inv n c" and st: "getJobState_State pkg \<in> set report_states"
  shows "\<exists>c'. exec_act (AReport e pkg now) c = Ok c' \<and> sys_inv (Suc n) c'"
proof -
  let ?j = "getJobState_ID e pkg" and ?s = "srv c"
  let ?f = "reported (getJobState_State pkg) (getJobState_ExitValue pkg) now"
  note sinv = sys_invD(1) [OF inv]
  obtain h where h: "amend findJob hist_set ?j ?f ?s = Ok (?s\<lparr>hist_mem := h\<rparr>)"
    "server_inv (set (held_ptrs (threads c))) (?s\<lparr>hist_mem := h\<rparr>)"
    "lookup (?s\<lparr>hist_mem := h\<rparr>) = (case lookup ?s ?j of None \<Rightarrow> lookup ?s | Some x \<Rightarrow> (lookup ?s)(?j \<mapsto> ?f x))"
    "\<forall>p. live h p \<longleftrightarrow> live (hist_mem ?s) p"
    using amend_inv [OF sinv, of ?f ?j] by auto
  have "hist_exact (?s\<lparr>hist_mem := h\<rparr>) = hist_exact ?s" "hist_tight (?s\<lparr>hist_mem := h\<rparr>) = hist_tight ?s"
    using h(3,4) by (auto simp: hist_exact_def hist_tight_def split: option.splits if_splits)
  then have "sys_inv (Suc n) (c\<lparr>srv := ?s\<lparr>hist_mem := h\<rparr>\<rparr>)"
    using h(2) sys_invD(2-7) [OF inv] unfolding sys_inv_def accounted_def by auto
  then show ?thesis
    using h(1) changeStateJob_amend [OF server_invD(1) [OF sinv] st, of e now]
    by (simp add: exec_act.simps)
qed

lemma state_step:
  assumes "sys_inv n c"
  shows "exec_act (AState j) c = Ok c"
proof (cases "lookup (srv c) j")
  case None
  then show ?thesis
    using hist.find_none [OF server_invD(1) [OF sys_invD(1) [OF assms]]] by (simp add: exec_act.simps)
next
  case (Some jh)
  then show ?thesis
    using hist.find_some [OF server_invD(1) [OF sys_invD(1) [OF assms]] Some]
    by (auto simp: exec_act.simps)
qed

lemma sys_inv_Suc: "sys_inv n c \<Longrightarrow> sys_inv (Suc n) c"
  by (auto simp: sys_inv_def)

text \<open>A safe step never faults and keeps the invariant.\<close>

lemma safe_step:
  assumes inv: "sys_inv n c" and n: "n < 2 ^ 32 - 1" and safe: "safe_act a"
  shows "exec_act a c = Wait \<or> (\<exists>c'. exec_act a c = Ok c' \<and> sys_inv (Suc n) c')"
proof (cases a)
  case (APut i)
  show ?thesis
  proof (cases "thread_at i c")
    case (Some t)
    then have "plain t" using sys_invD(3) [OF inv] by (auto elim: thread_at_SomeE)
    then show ?thesis
      using put_step [OF inv n, of i] APut Some by (cases t) (auto simp: exec_act.simps split: if_splits)
  qed (simp add: APut exec_act.simps)
next
  case (ASent i)
  then show ?thesis
    using sent_step [OF inv, of i] by (auto simp: exec_act.simps split: option.splits thread.splits)
next
  case AGet
  then show ?thesis using get_step [OF inv] by (auto split: if_splits)
qed (use submit_step [OF inv n] report_step [OF inv] state_step [OF inv] sys_inv_Suc [OF inv] safe in auto)

lemma reach_inv: "reach n c \<Longrightarrow> n < 2 ^ 32 \<Longrightarrow> sys_inv n c"
proof (induction rule: reach.induct)
  case reach_init
  show ?case by (rule sys_inv_init)
next
  case (reach_step n c a c')
  then show ?case using safe_step [of n c a] by auto
qed

section \<open>Draining\<close>

text \<open>How far the jobs in the system are from being sent: a job with a submitting thread has three
  steps to go, a queued one two, a taken one one.\<close>

primrec stage :: "thread \<Rightarrow> nat" where
  "stage (PNew p qi) = 3"
| "stage (PHeld p) = 1"
| "stage (PBack p qi) = 0"
| "stage (PFind p qi) = 0"
| "stage (PRemove j q) = 0"
| "stage (PMark j) = 0"

definition backlog :: "system \<Rightarrow> nat" where
  "backlog c = 2 * length (qlist (q0 (srv c))) + sum_list (map stage (threads c))"

lemma backlog_del:
  assumes "thread_at i c = Some t"
  shows "sum_list (map stage (threads c)) = sum_list (map stage (del i (threads c))) + stage t"
  using thread_at_SomeE [OF assms] by fastforce

lemma drain_step:
  assumes inv: "sys_inv n c" and n: "n < 2 ^ 32 - 1"
    and busy: "threads c \<noteq> [] \<or> qlist (q0 (srv c)) \<noteq> []"
  shows "\<exists>a c'. safe_act a \<and> exec_act a c = Ok c' \<and> sys_inv (Suc n) c' \<and> backlog c = Suc (backlog c') \<and>
           history_putidx (srv c') = history_putidx (srv c)"
proof (cases "qlist (q0 (srv c)) = []")
  case False
  then obtain c' p where "exec_act AGet c = Ok c'" "sys_inv (Suc n) c'" "threads c' = threads c @ [PHeld p]"
    "qlist (q0 (srv c)) = p # qlist (q0 (srv c'))" "history_putidx (srv c') = history_putidx (srv c)"
    using get_step [OF inv] by auto
  then show ?thesis by (intro exI [of _ AGet] exI [of _ c']) (simp add: backlog_def)
next
  case True
  then obtain t ts where ts: "threads c = t # ts" using busy by (cases "threads c") auto
  then have t: "thread_at 0 c = Some t" "plain t"
    using sys_invD(3) [OF inv, of t] by (simp_all add: thread_at_def)
  show ?thesis
  proof (cases t)
    case (PHeld p)
    with t obtain c' where "exec_act (ASent 0) c = Ok c'" "sys_inv (Suc n) c'"
      "threads c' = del 0 (threads c)" "qlist (q0 (srv c')) = qlist (q0 (srv c))"
      "history_putidx (srv c') = history_putidx (srv c)"
      using sent_step [OF inv] by blast
    then show ?thesis
      using backlog_del [OF t(1)] PHeld
      by (intro exI [of _ "ASent 0"] exI [of _ c']) (simp add: backlog_def)
  next
    case (PNew p qi)
    with t have "thread_at 0 c = Some (PNew p 0)" by simp
    from put_step [OF inv n this] True obtain c' where "exec_act (APut 0) c = Ok c'"
      "sys_inv (Suc n) c'" "threads c' = del 0 (threads c)"
      "length (qlist (q0 (srv c'))) = Suc (length (qlist (q0 (srv c))))"
      "history_putidx (srv c') = history_putidx (srv c)"
      by (auto simp: MAX_JOBS_QUEUE_def)
    then show ?thesis
      using backlog_del [OF t(1)] PNew
      by (intro exI [of _ "APut 0"] exI [of _ c']) (simp add: backlog_def)
  qed (use t(2) in auto)
qed

lemma drain:
  assumes "sys_inv n c" "n + backlog c < 2 ^ 32"
  shows "\<exists>as c'. length as = backlog c \<and> (\<forall>a\<in>set as. safe_act a) \<and> run_acts as c = Ok c' \<and>
           sys_inv (n + backlog c) c' \<and> threads c' = [] \<and> qlist (q0 (srv c')) = [] \<and>
           history_putidx (srv c') = history_putidx (srv c)"
  using assms
proof (induction "backlog c" arbitrary: n c)
  case 0
  have "threads c = [] \<and> qlist (q0 (srv c)) = []"
  proof (rule ccontr)
    assume "\<not> (threads c = [] \<and> qlist (q0 (srv c)) = [])"
    then have "threads c \<noteq> []" using 0(1) by (auto simp: backlog_def)
    then obtain t where t: "t \<in> set (threads c)" by (cases "threads c") auto
    then have "stage t = 0" using 0(1) by (auto simp: backlog_def)
    moreover have "plain t" by (rule sys_invD(3) [OF 0(2) t])
    ultimately show False by (cases t) auto
  qed
  then show ?case using 0 by (intro exI [of _ "[]"] exI [of _ c]) simp
next
  case (Suc b)
  have busy: "threads c \<noteq> [] \<or> qlist (q0 (srv c)) \<noteq> []" using Suc(2) by (auto simp: backlog_def)
  have "n < 2 ^ 32 - 1" using Suc(2,4) by simp
  from drain_step [OF Suc(3) this busy] obtain a c1 where a: "safe_act a" "exec_act a c = Ok c1"
    "sys_inv (Suc n) c1" "backlog c = Suc (backlog c1)"
    "history_putidx (srv c1) = history_putidx (srv c)" by blast
  from Suc(1) [of c1 "Suc n"] obtain as c' where "length as = backlog c1" "\<forall>a\<in>set as. safe_act a"
    "run_acts as c1 = Ok c'" "sys_inv (Suc n + backlog c1) c'" "threads c' = []"
    "qlist (q0 (srv c')) = []" "history_putidx (srv c') = history_putidx (srv c1)"
    using a(3,4) Suc(2,4) by auto
  then show ?case using a by (intro exI [of _ "a # as"] exI [of _ c']) simp
qed

section \<open>Properties\<close>

text \<open>Example data: the system after one submission.\<close>

lemma ex_one_submission:
  obtains c where "exec_act (ASubmit ex_env (ex_job 5) (ex_sock 9 [])) init_system = Ok c" "reach 1 c"
    "threads c = [PNew (At 0) 0]" "qlist (q0 (srv c)) = []" "gone c = []" "history_putidx (srv c) = 1"
proof -
  have cr: "packet_size (SubResp 0) \<le> tx_credit (ex_sock 9 [])" by (simp add: layout)
  obtain c where c: "exec_act (ASubmit ex_env (ex_job 5) (ex_sock 9 [])) init_system = Ok c"
    using submit_step [OF sys_inv_init _ cr] by fastforce
  have r: "reach 1 c" using reach_step [OF reach_init _ c] cr by simp
  have "threads c = [PNew (At 0) 0]" "queue (srv c) = queue init_server" "gone c = []"
    "history_putidx (srv c) = 1"
    using c by (auto simp: exec_act.simps init_system_def malloc_def init_server_def empty_heap_def
        newJob_record_def nextPut_eq bnd_eq_Ok_iff registerJob_def Let_def split: prod.splits)
  moreover have "qlist (q0 init_server) = []"
    using represents_length [OF init_server_ok(3)] by (simp add: init_service_def)
  ultimately show ?thesis using that c r by simp
qed

text \<open>C6: every interleaving of the safe fragment is safe. In every system reachable from the start by
  any schedule of submissions, puts, takes, dispatches, reports and enquiries by any number of
  threads (fewer than the counters can count), no step faults: no use after free, no double free, no
  null or uninitialised pointer, no access outside an array, no failed assertion.\<close>

theorem threads_never_fault:
  assumes "reach n c" "n < 2 ^ 32 - 1" "safe_act a"
  shows "exec_act a c \<noteq> Fail f"
  using safe_step [OF reach_inv [OF assms(1)] assms(2,3)] assms(2) by auto

theorem threads_never_fault_witness:
  "exec_act (ASubmit ex_env (ex_job 5) (ex_sock 9 [])) init_system \<noteq> Fail UseAfterFree"
  by (rule threads_never_fault [OF reach_init]) (simp_all add: layout)

text \<open>C7: no job is lost or duplicated. In every system reachable that way, each id given out so far
  is exactly once in the queue, with a thread that is about to queue or send it, or sent; the blocks
  in the queue and with the threads are distinct and are exactly the allocated ones, and the queue
  holds at most 15 jobs.\<close>

theorem threads_account_for_jobs:
  assumes "reach n c" "n < 2 ^ 32"
  shows "image_mset (id_at (job_mem (srv c)))
           (mset (qlist (queue (srv c) ! 0)) + mset (held_ptrs (threads c))) + mset (gone c) =
         mset (map of_nat [0..<unat (history_putidx (srv c))]) \<and>
         distinct (qlist (queue (srv c) ! 0) @ held_ptrs (threads c)) \<and>
         (\<forall>p. live (job_mem (srv c)) p \<longleftrightarrow> p \<in> set (qlist (queue (srv c) ! 0) @ held_ptrs (threads c))) \<and>
         length (qlist (queue (srv c) ! 0)) \<le> MAX_JOBS_QUEUE"
proof -
  note inv = reach_inv [OF assms]
  show ?thesis
    using sys_invD(2,7) [OF inv] server_invD(5,6,7) [OF sys_invD(1) [OF inv]]
      jq.contents_cap [OF server_invD(3) [OF sys_invD(1) [OF inv]]] by auto
qed

theorem threads_account_for_jobs_witness:
  "\<exists>c. exec_act (ASubmit ex_env (ex_job 5) (ex_sock 9 [])) init_system = Ok c \<and>
     id_at (job_mem (srv c)) (At 0) = 0 \<and> (\<forall>p. live (job_mem (srv c)) p \<longleftrightarrow> p = At 0)"
proof (rule ex_one_submission)
  fix c
  assume c: "exec_act (ASubmit ex_env (ex_job 5) (ex_sock 9 [])) init_system = Ok c" "reach 1 c"
    "threads c = [PNew (At 0) 0]" "qlist (q0 (srv c)) = []" "gone c = []" "history_putidx (srv c) = 1"
  then show ?thesis using threads_account_for_jobs [OF c(2)] by simp
qed



text \<open>C9: liveness. From every reachable system, as long as execution servers ask for jobs, every job
  gets sent: there is a schedule without new submissions, of as many steps as the backlog, after
  which no thread holds a job, the queue is empty, and every id given out has been sent.\<close>

theorem backlog_can_drain:
  assumes "reach n c" "n + backlog c < 2 ^ 32"
  shows "\<exists>as c'. length as = backlog c \<and> (\<forall>a\<in>set as. safe_act a) \<and> run_acts as c = Ok c' \<and>
           threads c' = [] \<and> qlist (queue (srv c') ! 0) = [] \<and>
           mset (gone c') = mset (map of_nat [0..<unat (history_putidx (srv c))])"
proof -
  have inv: "sys_inv n c" by (rule reach_inv [OF assms(1)]) (use assms(2) in simp)
  obtain as c' where c': "length as = backlog c" "\<forall>a\<in>set as. safe_act a" "run_acts as c = Ok c'"
    "sys_inv (n + backlog c) c'" "threads c' = []" "qlist (queue (srv c') ! 0) = []"
    "history_putidx (srv c') = history_putidx (srv c)"
    using drain [OF inv assms(2)] by blast
  moreover have "mset (gone c') = mset (map of_nat [0..<unat (history_putidx (srv c))])"
    using sys_invD(7) [OF c'(4)] c'(5,6,7) by simp
  ultimately show ?thesis by blast
qed

theorem backlog_can_drain_witness:
  "\<exists>c as c'. exec_act (ASubmit ex_env (ex_job 5) (ex_sock 9 [])) init_system = Ok c \<and>
     run_acts as c = Ok c' \<and> threads c' = [] \<and> length as = backlog c \<and> mset (gone c') = {#0#}"
proof (rule ex_one_submission)
  fix c
  assume c: "exec_act (ASubmit ex_env (ex_job 5) (ex_sock 9 [])) init_system = Ok c" "reach 1 c"
    "threads c = [PNew (At 0) 0]" "qlist (q0 (srv c)) = []" "gone c = []" "history_putidx (srv c) = 1"
  then have "1 + backlog c < 2 ^ 32" by (simp add: backlog_def)
  from backlog_can_drain [OF c(2) this] c show ?thesis by auto
qed

section \<open>Schedules that go wrong\<close>

text \<open>A submission whose answer can be sent.\<close>

definition ex_submit :: "u16 \<Rightarrow> act" where
  "ex_submit i = ASubmit ex_env (ex_job i) (ex_sock 9 [])"




end
