(* ===== verification/ExecServer.thy ===== *)
theory ExecServer
  imports Transport
begin

text \<open>
  The execution server, \<open>exec_server.c\<close>. It asks the main server for a job, answers its liveness
  check, forks, runs the command line in the child and reports from the parent. The parent's state
  is its socket and a clock in seconds (\<open>sendAck\<close> sleeps); the child's is where its standard streams
  go and its working directory. What the operating system answers is in \<open>xenv\<close>.
\<close>

section \<open>Splitting the command line\<close>

text \<open>\<open>strtok_r\<close> with the delimiters \<open>" \n"\<close> on the bytes from the current position to the end of the
  buffer; running off the buffer is a fault. The position after the call is just behind the token's
  delimiter, or at the terminator.\<close>

definition is_delim :: "u8 \<Rightarrow> bool" where
  "is_delim b \<longleftrightarrow> b = 32 \<or> b = 10"

definition strtok_r :: "u8 list \<Rightarrow> (u8 list option \<times> u8 list) outcome" where
  "strtok_r buf =
     (case dropWhile is_delim buf of
        [] \<Rightarrow> Fail OutOfBounds
      | b # bs \<Rightarrow>
          if b = 0 then Ok (None, b # bs)
          else (let tok = takeWhile (\<lambda>c. c \<noteq> 0 \<and> \<not> is_delim c) (b # bs)
                in case drop (length tok) (b # bs) of
                     [] \<Rightarrow> Fail OutOfBounds
                   | c # cs \<Rightarrow> Ok (Some tok, if c = 0 then c # cs else cs)))"

text \<open>The loop that fills \<open>args\<close> from index \<open>i\<close> on; the result are the arguments before the first null
  pointer. The slot of the twentieth token is overwritten with a null pointer.\<close>

function args_loop :: "nat \<Rightarrow> u8 list \<Rightarrow> u8 list list outcome" where
  "args_loop i buf =
     (if i < ARG_MAX_args then
        bnd (strtok_r buf) (\<lambda>(t, buf).
          case t of
            None \<Rightarrow> Ok []
          | Some tok \<Rightarrow>
              if i + 1 = ARG_MAX_args then Ok []
              else bnd (args_loop (i + 1) buf) (\<lambda>ts. Ok (tok # ts)))
      else Fail OutOfBounds)"
  by pat_completeness auto
termination
  by (relation "measure (\<lambda>(i, buf). ARG_MAX_args - i)") auto

declare args_loop.simps [simp del]

text \<open>The reference: the maximal runs of bytes other than delimiters.\<close>

function tokens :: "u8 list \<Rightarrow> u8 list list" where
  "tokens [] = []"
| "tokens (b # bs) =
     (if is_delim b then tokens bs
      else takeWhile (\<lambda>c. \<not> is_delim c) (b # bs) # tokens (dropWhile (\<lambda>c. \<not> is_delim c) (b # bs)))"
  by pat_completeness auto
termination
proof (relation "measure length")
  show "\<not> is_delim b \<Longrightarrow> (dropWhile (\<lambda>c. \<not> is_delim c) (b # bs), b # bs) \<in> measure length" for b bs
    by (simp add: le_imp_less_Suc length_dropWhile_le)
qed auto

lemma tokens_skip: "tokens (dropWhile is_delim bs) = tokens bs"
  by (induction bs) auto

lemma not_delim_0 [simp]: "\<not> is_delim 0"
  by (simp add: is_delim_def)

text \<open>One call of \<open>strtok_r\<close> takes the first token; on a terminated buffer it never leaves it, on an
  unterminated one it does unless a delimiter follows the token.\<close>

lemma strtok_r_none:
  assumes "0 \<notin> set s" "tokens s = []"
  shows "strtok_r (s @ 0 # r) = Ok (None, 0 # r)" "strtok_r s = Fail OutOfBounds"
proof -
  have "dropWhile is_delim s = []"
    using tokens_skip [of s] assms(2) by (cases "dropWhile is_delim s") (auto simp: dropWhile_eq_Cons_conv)
  then have "dropWhile is_delim (s @ 0 # r) = 0 # r" "dropWhile is_delim s = []"
    by (simp_all add: dropWhile_append)
  then show "strtok_r (s @ 0 # r) = Ok (None, 0 # r)" "strtok_r s = Fail OutOfBounds"
    by (simp_all add: strtok_r_def del: dropWhile_eq_Nil_conv)
qed

lemma strtok_r_split:
  assumes "0 \<notin> set s" "tokens s = t # ts"
  obtains u v where "dropWhile is_delim s = t @ v" "t \<noteq> []" "0 \<notin> set t" "0 \<notin> set v"
    "\<forall>c\<in>set t. \<not> is_delim c" "tokens v = ts" "v = [] \<or> is_delim (hd v)"
proof -
  define u where "u = dropWhile is_delim s"
  have tk: "tokens u = t # ts" using tokens_skip [of s] assms(2) by (simp add: u_def)
  then obtain b bs where b: "u = b # bs" by (cases u) auto
  then have nb: "\<not> is_delim b" by (simp add: u_def dropWhile_eq_Cons_conv)
  have z: "0 \<notin> set u" using assms(1) set_dropWhileD by (fastforce simp: u_def)
  let ?v = "dropWhile (\<lambda>c. \<not> is_delim c) u"
  have t: "t = takeWhile (\<lambda>c. \<not> is_delim c) u" "ts = tokens ?v" using tk b nb by simp_all
  have "?v = [] \<or> is_delim (hd ?v)" using hd_dropWhile [of "\<lambda>c. \<not> is_delim c" u] by blast
  moreover have "u = t @ ?v" "t \<noteq> []" using t(1) b nb by simp_all
  moreover have "\<forall>c\<in>set t. \<not> is_delim c" using t(1) by (auto dest: set_takeWhileD)
  moreover have "0 \<notin> set t" "0 \<notin> set ?v"
    using z t(1) by (auto dest: set_takeWhileD set_dropWhileD)
  ultimately show ?thesis using that t(2) by (metis u_def)
qed

lemma strtok_r_prefix:
  assumes "dropWhile is_delim buf = t @ c # cs" "t \<noteq> []" "0 \<notin> set t" "\<forall>x\<in>set t. \<not> is_delim x"
    and "c = 0 \<or> is_delim c"
  shows "strtok_r buf = Ok (Some t, if c = 0 then c # cs else cs)"
proof -
  obtain b bs where b: "t = b # bs" using assms(2) by (cases t) auto
  have "takeWhile (\<lambda>x. x \<noteq> 0 \<and> \<not> is_delim x) (t @ c # cs) = t"
    using assms(3-5) by (subst takeWhile_append2) auto
  moreover have "drop (length t) (t @ c # cs) = c # cs" by simp
  ultimately show ?thesis using assms(1,3) b by (simp add: strtok_r_def Let_def)
qed

lemma strtok_r_some:
  assumes "0 \<notin> set s" "tokens s = t # ts"
  obtains s' r' where "strtok_r (s @ 0 # r) = Ok (Some t, s' @ 0 # r')" "0 \<notin> set s'" "tokens s' = ts"
proof -
  obtain v where v: "dropWhile is_delim s = t @ v" "t \<noteq> []" "0 \<notin> set t" "0 \<notin> set v"
    "\<forall>c\<in>set t. \<not> is_delim c" "tokens v = ts" "v = [] \<or> is_delim (hd v)"
    using strtok_r_split [OF assms] by metis
  have ne: "\<exists>x\<in>set s. \<not> is_delim x"
    using v(1,2) dropWhile_eq_Nil_conv [of is_delim s] by auto
  then have d: "dropWhile is_delim (s @ 0 # r) = t @ v @ 0 # r" using v(1) by (auto simp: dropWhile_append)
  show ?thesis
  proof (cases v)
    case Nil
    then have "strtok_r (s @ 0 # r) = Ok (Some t, [] @ 0 # r)"
      using strtok_r_prefix [OF _ v(2,3,5), of "s @ 0 # r" 0 r] d by simp
    then show ?thesis using that [of "[]" r] v(6) Nil by simp
  next
    case (Cons c cs)
    then have "strtok_r (s @ 0 # r) = Ok (Some t, cs @ 0 # r)"
      using strtok_r_prefix [OF _ v(2,3,5), of "s @ 0 # r" c "cs @ 0 # r"] d v(4,7) by auto
    then show ?thesis using that [of cs r] v(4,6,7) Cons by auto
  qed
qed

lemma strtok_r_open:
  assumes "0 \<notin> set s" "tokens s = t # ts"
  shows "strtok_r s = Fail OutOfBounds \<or>
         (\<exists>s'. strtok_r s = Ok (Some t, s') \<and> 0 \<notin> set s' \<and> tokens s' = ts)"
proof -
  obtain v where v: "dropWhile is_delim s = t @ v" "t \<noteq> []" "0 \<notin> set t" "0 \<notin> set v"
    "\<forall>c\<in>set t. \<not> is_delim c" "tokens v = ts" "v = [] \<or> is_delim (hd v)"
    using strtok_r_split [OF assms] by metis
  show ?thesis
  proof (cases v)
    case Nil
    obtain b bs where "t = b # bs" using v(2) by (cases t) auto
    moreover have "takeWhile (\<lambda>x. x \<noteq> 0 \<and> \<not> is_delim x) t = t"
      using v(3,5) by (auto simp: takeWhile_eq_all_conv)
    ultimately show ?thesis using v(1,3) Nil by (simp add: strtok_r_def Let_def)
  next
    case (Cons c cs)
    then have "strtok_r s = Ok (Some t, cs)"
      using strtok_r_prefix [OF _ v(2,3,5), of s c cs] v(1,4,7) by auto
    then show ?thesis using v(4,6,7) Cons by auto
  qed
qed

lemma args_loop_string:
  assumes "0 \<notin> set s" "i < ARG_MAX_args"
  shows "args_loop i (s @ 0 # r) = Ok (take (ARG_MAX_args - 1 - i) (tokens s))"
  using assms
proof (induction "ARG_MAX_args - i" arbitrary: i s r)
  case 0
  then show ?case by simp
next
  case (Suc n)
  show ?case
  proof (cases "tokens s")
    case Nil
    then show ?thesis using strtok_r_none [OF Suc.prems(1)] Suc.prems(2) by (subst args_loop.simps) simp
  next
    case (Cons t ts)
    obtain s' r' where s': "strtok_r (s @ 0 # r) = Ok (Some t, s' @ 0 # r')" "0 \<notin> set s'" "tokens s' = ts"
      using strtok_r_some [OF Suc.prems(1) Cons] .
    show ?thesis
    proof (cases "i + 1 = ARG_MAX_args")
      case True
      then show ?thesis using s'(1) Suc.prems(2) Cons by (subst args_loop.simps) simp
    next
      case False
      then have "ARG_MAX_args - 1 - i = Suc (ARG_MAX_args - 1 - (i + 1))" using Suc.prems(2) by simp
      moreover have "args_loop (i + 1) (s' @ 0 # r') = Ok (take (ARG_MAX_args - 1 - (i + 1)) ts)"
        using Suc.hyps(1) [of "i + 1" s' r'] Suc.hyps(2) Suc.prems(2) False s'(2,3) by simp
      ultimately show ?thesis using s'(1) Suc.prems(2) Cons False by (subst args_loop.simps) simp
    qed
  qed
qed

lemma args_loop_open:
  assumes "0 \<notin> set s" "i + length (tokens s) < ARG_MAX_args"
  shows "args_loop i s = Fail OutOfBounds"
  using assms
proof (induction "tokens s" arbitrary: i s)
  case Nil
  then show ?case using strtok_r_none(2) [of s] by (subst args_loop.simps) simp
next
  case (Cons t ts)
  from strtok_r_open [OF Cons.prems(1) Cons.hyps(2) [symmetric]] show ?case
  proof (elim disjE exE conjE)
    assume "strtok_r s = Fail OutOfBounds"
    then show ?thesis using Cons.prems(2) by (subst args_loop.simps) simp
  next
    fix s' assume s': "strtok_r s = Ok (Some t, s')" "0 \<notin> set s'" "tokens s' = ts"
    then have "args_loop (i + 1) s' = Fail OutOfBounds"
      using Cons.hyps(1) [of s' "i + 1"] Cons.hyps(2) Cons.prems(2)
      by
        (metis add_Suc add_Suc_right length_Cons plus_1_eq_Suc add.commute)
    then show ?thesis
      using s'(1) Cons.hyps(2) [symmetric] Cons.prems(2) by (subst args_loop.simps) simp
  qed
qed

section \<open>The child\<close>

text \<open>Where a standard stream goes (for a client: the address and port connected to, as stored), and the
  parts of the process the child sets up.\<close>

datatype stream = Inherited | File string | Peer u32 u16

record proc =
  pr_out :: stream
  pr_err :: stream
  pr_in :: stream
  pr_cwd :: "u8 list option"

text \<open>What the operating system answers the child: the descriptors \<open>open\<close> returns (-1 for an error),
  whether each \<open>dup2\<close> succeeds, whether \<open>chdir\<close> does, and for an interactive job the address
  \<open>gethostbyaddr\<close> finds for the client's and what \<open>socket\<close> and \<open>connect\<close> return.\<close>

record cenv =
  c_open_out :: int
  c_open_err :: int
  c_open_null :: int
  c_dup_out :: bool
  c_dup_err :: bool
  c_dup_in :: bool
  c_chdir :: bool
  c_host :: "u32 \<Rightarrow> u32 option"
  c_socket :: int
  c_connect :: int

definition setFDsNoIter :: "cenv \<Rightarrow> endian \<Rightarrow> mem \<Rightarrow> proc \<Rightarrow> proc" where
  "setFDsNoIter ce e pkg pr =
     (let jid = dec (unat (getJobID_NoIter e pkg)) in
      if c_open_out ce = -1 then pr
      else if c_open_err ce = -1 then pr
      else if c_open_null ce = -1 then pr
      else if \<not> c_dup_out ce then pr
      else (let pr = pr\<lparr>pr_out := File (''cout-'' @ jid @ ''.log'')\<rparr> in
      if \<not> c_dup_err ce then pr
      else (let pr = pr\<lparr>pr_err := File (''cerr-'' @ jid @ ''.log'')\<rparr> in
      if \<not> c_dup_in ce then pr
      else (let pr = pr\<lparr>pr_in := File ''/dev/null''\<rparr> in
      if \<not> c_chdir ce then pr
      else pr\<lparr>pr_cwd := Some (cstr (getExec_fileExec_wdir pkg))\<rparr>))))"

text \<open>The descriptor, and the address and port the connection goes to.\<close>

definition socketPortConnect :: "cenv \<Rightarrow> u16 \<Rightarrow> u32 \<Rightarrow> (int \<times> u32 \<times> u16) outcome" where
  "socketPortConnect ce port address =
     (case c_host ce address of
        None \<Rightarrow> Fail (ProcExit 0)
      | Some h_addr \<Rightarrow> Ok (if c_connect ce < 0 then -1 else c_socket ce, h_addr, port))"

text \<open>\<open>dup2\<close> of an invalid descriptor fails, whatever the environment says.\<close>

definition setFDsIter :: "cenv \<Rightarrow> endian \<Rightarrow> mem \<Rightarrow> proc \<Rightarrow> (int \<times> proc) outcome" where
  "setFDsIter ce e pkg pr =
     bnd (socketPortConnect ce (getExecAddr_port e pkg) (getExecAddr_ipadd e pkg)) (\<lambda>(sock_client, h_addr, port).
       if sock_client < 0 \<or> \<not> c_dup_out ce then Ok (-1, pr)
       else (let pr = pr\<lparr>pr_out := Peer h_addr port\<rparr> in
       if \<not> c_dup_err ce then Ok (-1, pr)
       else (let pr = pr\<lparr>pr_err := Peer h_addr port\<rparr> in
       if \<not> c_dup_in ce then Ok (-1, pr)
       else (let pr = pr\<lparr>pr_in := Peer h_addr port\<rparr> in
       if \<not> c_chdir ce then Ok (-1, pr)
       else Ok (sock_client, pr\<lparr>pr_cwd := Some (cstr (getExecAddr_fileExec_wdir pkg))\<rparr>)))))"

text \<open>\<open>consumeJob\<close> up to \<open>execvp\<close>: the process it starts the program in and the argument vector. With
  no token on the line \<open>execvp\<close> gets a null pointer for the file name.\<close>

definition consumeJob :: "cenv \<Rightarrow> endian \<Rightarrow> mem \<Rightarrow> proc \<Rightarrow> (proc \<times> u8 list list) outcome" where
  "consumeJob ce e pkg pr =
     bnd (if getType pkg = Type_u8 TYPE_SENDJOB_NOINTER
          then Ok (setFDsNoIter ce e pkg pr, getExec_fileExec_execfile pkg)
          else if getType pkg = Type_u8 TYPE_SENDJOB_INTER
          then bnd (setFDsIter ce e pkg pr) (\<lambda>(sock_client, pr).
                 Ok (pr, getExecAddr_fileExec_execfile pkg))
          else Fail AssertFail) (\<lambda>(pr, line).
     let line_cpy = strncpy_bytes (SZ_PATH * NUM_PATH) line
     in bnd (args_loop 0 line_cpy) (\<lambda>args.
          if args = [] then Fail NullDeref else Ok (pr, args)))"

definition exec_server_protocol_child ::
    "cenv \<Rightarrow> endian \<Rightarrow> mem \<Rightarrow> proc \<Rightarrow> (proc \<times> u8 list list) outcome" where
  "exec_server_protocol_child ce e pkg pr = consumeJob ce e pkg pr"

section \<open>The parent\<close>

datatype wait_ev =
    WExited u8    \<comment> \<open>\<open>WIFEXITED\<close>, with \<open>WEXITSTATUS\<close>\<close>
  | WSignaled u8  \<comment> \<open>\<open>WIFSIGNALED\<close>, with \<open>WTERMSIG\<close>\<close>
  | WOther        \<comment> \<open>neither\<close>
  | WError        \<comment> \<open>\<open>wait\<close> returns -1 and leaves \<open>wstatus\<close> uninitialised\<close>

text \<open>The child branch of \<open>execJob\<close>, as \<open>wait\<close> sees its end. \<open>prog\<close> is how the program ended, \<open>None\<close> when
  \<open>execvp\<close> returned; then the child exits with 40. A failed assertion and a null pointer end it with
  \<open>SIGABRT\<close> and \<open>SIGSEGV\<close>; a read outside the line has no defined end.\<close>

definition execJob_child ::
    "cenv \<Rightarrow> endian \<Rightarrow> mem \<Rightarrow> proc \<Rightarrow> wait_ev option \<Rightarrow> wait_ev outcome" where
  "execJob_child ce e pkg pr prog =
     (case exec_server_protocol_child ce e pkg pr of
        Ok (pr, args) \<Rightarrow> (case prog of None \<Rightarrow> Ok (WExited 40) | Some w \<Rightarrow> Ok w)
      | Wait \<Rightarrow> Wait
      | Fail f \<Rightarrow>
          (case f of
             ProcExit n \<Rightarrow> Ok (WExited (of_int n))
           | AssertFail \<Rightarrow> Ok (WSignaled 6)
           | NullDeref \<Rightarrow> Ok (WSignaled 11)
           | _ \<Rightarrow> Fail f))"

text \<open>The host, the contents of uninitialised \<open>Msg\<close> objects, what \<open>fork\<close> returns and what \<open>wait\<close>
  finds.\<close>

record xenv =
  x_host :: endian
  x_stack :: mem
  x_fork :: int
  x_wait :: wait_ev

record xstate =
  xs_sock :: sock
  xs_clock :: nat

text \<open>\<open>sendMsg\<close> on the connection to the main server.\<close>

definition xsend :: "xenv \<Rightarrow> mem \<Rightarrow> xstate \<Rightarrow> (int \<times> xstate) outcome" where
  "xsend xe pkg x = bnd (sendMsg (x_host xe) (xs_sock x) pkg) (\<lambda>(err, sk). Ok (err, x\<lparr>xs_sock := sk\<rparr>))"

definition fatherJobRoutine :: "xenv \<Rightarrow> u16 \<Rightarrow> xstate \<Rightarrow> xstate outcome" where
  "fatherJobRoutine xe jid x =
     bnd (xsend xe (setJobRun (x_host xe) (x_stack xe) jid) x) (\<lambda>(err, x).
     bnd (case x_wait xe of
            WExited st \<Rightarrow> Ok (setJobDone (x_host xe) (x_stack xe) jid st)
          | WSignaled sg \<Rightarrow> Ok (setJobSignaled (x_host xe) (x_stack xe) jid sg)
          | WOther \<Rightarrow> Fail AssertFail
          | WError \<Rightarrow> Fail UninitRead) (\<lambda>pkg.
     bnd (xsend xe pkg x) (\<lambda>(err, x). Ok x)))"

definition exec_server_protocol_father :: "xenv \<Rightarrow> mem \<Rightarrow> xstate \<Rightarrow> xstate outcome" where
  "exec_server_protocol_father xe pkg x =
     (if getType pkg = Type_u8 TYPE_SENDJOB_NOINTER
      then fatherJobRoutine xe (getJobID_NoIter (x_host xe) pkg) x
      else if getType pkg = Type_u8 TYPE_SENDJOB_INTER
      then fatherJobRoutine xe (getJobID_Iter (x_host xe) pkg) x
      else Ok x)"

definition error_fork :: "xenv \<Rightarrow> mem \<Rightarrow> xstate \<Rightarrow> xstate outcome" where
  "error_fork xe pkg x =
     (let new_pkg =
        (if getType pkg = Type_u8 TYPE_SENDJOB_NOINTER
         then setJobDone (x_host xe) (x_stack xe) (getJobID_NoIter (x_host xe) pkg) 41
         else if getType pkg = Type_u8 TYPE_SENDJOB_INTER
         then setJobDone (x_host xe) (x_stack xe) (getJobID_Iter (x_host xe) pkg) 41
         else x_stack xe)
      in bnd (xsend xe new_pkg x) (\<lambda>(err, x). Ok x))"

text \<open>\<open>execJob\<close> in the parent; \<open>fork\<close> returns 0 in the child only.\<close>

definition execJob :: "xenv \<Rightarrow> mem \<Rightarrow> xstate \<Rightarrow> (bool \<times> xstate) outcome" where
  "execJob xe pkg x =
     (if x_fork xe = -1 then bnd (error_fork xe pkg x) (\<lambda>x. Ok (True, x))
      else bnd (exec_server_protocol_father xe pkg x) (\<lambda>x. Ok (True, x)))"

definition ACK_SLEEP :: nat where [const_defs]: "ACK_SLEEP = 6"

definition sendAck :: "xenv \<Rightarrow> xstate \<Rightarrow> (bool \<times> xstate) outcome" where
  "sendAck xe x =
     (let pkg = setCheckExecServerAck (x_host xe) (x_stack xe);
          x = x\<lparr>xs_clock := xs_clock x + ACK_SLEEP\<rparr>
      in bnd (xsend xe pkg x) (\<lambda>(err, x).
           if err = -1 then Ok (False, x) else if err = 0 then Ok (False, x) else Ok (True, x)))"

lemma xsend_keeps: "xsend xe pkg x = Ok (err, x') \<Longrightarrow> rx_ev (xs_sock x') = rx_ev (xs_sock x)"
  by (auto simp: xsend_def bnd_eq_Ok_iff dest: sendMsg_keeps)

lemma sendAck_keeps: "sendAck xe x = Ok (b, x') \<Longrightarrow> rx_ev (xs_sock x') = rx_ev (xs_sock x)"
  by (auto simp: sendAck_def bnd_eq_Ok_iff Let_def dest!: xsend_keeps split: if_splits)

text \<open>One message from the main server; \<open>exec_server_protocol\<close> and \<open>ackRoutine\<close> call each other and
  end because every message consumes an event of the socket.\<close>

function exec_server_protocol :: "xenv \<Rightarrow> xstate \<Rightarrow> (bool \<times> xstate) outcome"
  and ackRoutine :: "xenv \<Rightarrow> xstate \<Rightarrow> (bool \<times> xstate) outcome" where
  "exec_server_protocol xe x =
     bnd (recvMsg (x_host xe) (xs_sock x) (x_stack xe)) (\<lambda>(err, pkg, sk).
       if err = 1 then
         (case Type_of (getType pkg) of
            Some TYPE_SENDJOB_NOINTER \<Rightarrow> execJob xe pkg (x\<lparr>xs_sock := sk\<rparr>)
          | Some TYPE_SENDJOB_INTER \<Rightarrow> execJob xe pkg (x\<lparr>xs_sock := sk\<rparr>)
          | Some TYPE_CH_EXEC_SER \<Rightarrow> ackRoutine xe (x\<lparr>xs_sock := sk\<rparr>)
          | _ \<Rightarrow> Ok (False, x\<lparr>xs_sock := sk\<rparr>))
       else Ok (False, x\<lparr>xs_sock := sk\<rparr>))"
| "ackRoutine xe x =
     bnd (sendAck xe x) (\<lambda>(ack_result, x).
       if \<not> ack_result then Ok (False, x) else exec_server_protocol xe x)"
  by pat_completeness auto
termination
  by (relation "measure (case_sum (\<lambda>(xe, x). 2 * length (rx_ev (xs_sock x)))
        (\<lambda>(xe, x). Suc (2 * length (rx_ev (xs_sock x)))))")
    (auto dest!: recvMsg_shrinks sendAck_keeps)

declare exec_server_protocol.simps [simp del] ackRoutine.simps [simp del]

definition jobRequest :: "xenv \<Rightarrow> xstate \<Rightarrow> (bool \<times> xstate) outcome" where
  "jobRequest xe x =
     bnd (xsend xe (setJobReq (x_host xe) (x_stack xe)) x) (\<lambda>(err, x).
       if err = -1 then Ok (False, x) else if err = 0 then Ok (False, x)
       else exec_server_protocol xe x)"

definition closeConnecMain :: "xenv \<Rightarrow> xstate \<Rightarrow> (bool \<times> xstate) outcome" where
  "closeConnecMain xe x =
     bnd (xsend xe (setClosedConnection_ExecServer (x_host xe) (x_stack xe)) x) (\<lambda>(err, x). Ok (False, x))"

text \<open>The command loop of \<open>main\<close> over the text the user types.\<close>

function exec_main_loop :: "(nat \<Rightarrow> xenv) \<Rightarrow> nat \<Rightarrow> string \<Rightarrow> xstate \<Rightarrow> xstate outcome" where
  "exec_main_loop xes n inp x =
     bnd (scan_word inp) (\<lambda>(command, inp).
       if command = ''job'' then
         bnd (jobRequest (xes n) x) (\<lambda>(flag, x).
           if flag then exec_main_loop xes (Suc n) inp x else Ok x)
       else if command = ''stop'' then
         bnd (closeConnecMain (xes n) x) (\<lambda>(flag, x).
           if flag then exec_main_loop xes (Suc n) inp x else Ok x)
       else exec_main_loop xes (Suc n) inp x)"
  by pat_completeness auto
termination
  by (relation "measure (\<lambda>(xes, n, inp, x). length inp)") (auto dest!: scan_word_shrinks)

declare exec_main_loop.simps [simp del]

text \<open>\<open>main\<close>: \<open>host_known\<close> and \<open>conn\<close> are what \<open>gethostbyname\<close> and \<open>connect\<close> answer.\<close>

definition exec_main ::
    "string list \<Rightarrow> bool \<Rightarrow> int \<Rightarrow> (nat \<Rightarrow> xenv) \<Rightarrow> string \<Rightarrow> xstate \<Rightarrow> (int \<times> xstate) outcome" where
  "exec_main argv host_known conn xes inp x =
     (if length argv < 3 then Fail (ProcExit 0)
      else bnd (atoi (argv ! 2)) (\<lambda>portno.
        if \<not> host_known then Fail (ProcExit 0)
        else if conn < 0 then Ok (-1, x)
        else bnd (exec_main_loop xes 0 inp x) (\<lambda>x. Ok (0, x))))"

section \<open>Lemmas\<close>

lemma strncpy_terminated:
  assumes "0 \<notin> set f" "length f < n"
  shows "strncpy_bytes n f = f @ 0 # replicate (n - length f - 1) 0"
proof -
  have "takeWhile (\<lambda>b. b \<noteq> 0) (take n f) = f"
    using assms takeWhile_take_short [of f n] by simp
  moreover have "replicate (n - length f) (0 :: u8) = 0 # replicate (n - length f - 1) 0"
    using assms(2) by (metis Suc_diff_Suc diff_Suc_eq_diff_pred diff_commute replicate_Suc diff_Suc_1)
  ultimately show ?thesis by (simp add: strncpy_bytes_def Let_def)
qed

lemma strncpy_cut:
  assumes "0 \<notin> set f" "n \<le> length f"
  shows "strncpy_bytes n f = take n f"
  unfolding strncpy_bytes_def Let_def takeWhile_take_short [OF assms(1)] using assms(2) by simp

lemma line_copy: "strncpy_bytes (SZ_PATH * NUM_PATH) (strncpy_bytes SZ_PATH f) = strncpy_bytes SZ_PATH f"
  by (simp add: NUM_PATH_def)

lemma line_args:
  assumes "0 \<notin> set f" "length f < SZ_PATH"
  shows "args_loop 0 (strncpy_bytes (SZ_PATH * NUM_PATH) (strncpy_bytes SZ_PATH f)) =
           Ok (take (ARG_MAX_args - 1) (tokens f))"
  unfolding line_copy using args_loop_string [OF assms(1), of 0] strncpy_terminated [OF assms]
  by (simp add: ARG_MAX_args_def)

lemma consumeJob_tokens:
  assumes "0 \<notin> set f" "length f < SZ_PATH" "tokens f \<noteq> []"
  shows "consumeJob ce e (encode e' (SendJobNoInter f d j) m) pr =
           Ok (setFDsNoIter ce e (encode e' (SendJobNoInter f d j) m) pr,
               take (ARG_MAX_args - 1) (tokens f))"
  using line_args [OF assms(1,2)] assms(3)
  by (simp add: consumeJob_def get_job ARG_MAX_args_def del: encode.simps Type_u8.simps)

lemma consumeJob_blank:
  assumes "0 \<notin> set f" "length f < SZ_PATH" "tokens f = []"
  shows "consumeJob ce e (encode e' (SendJobNoInter f d j) m) pr = Fail NullDeref"
  using line_args [OF assms(1,2)] assms(3)
  by (simp add: consumeJob_def get_job del: encode.simps Type_u8.simps)

lemma line_args_cut:
  assumes "0 \<notin> set f" "SZ_PATH \<le> length f" "length (tokens (take SZ_PATH f)) < ARG_MAX_args"
  shows "args_loop 0 (strncpy_bytes (SZ_PATH * NUM_PATH) (strncpy_bytes SZ_PATH f)) = Fail OutOfBounds"
  unfolding line_copy using args_loop_open [of "take SZ_PATH f" 0] strncpy_cut [OF assms(1,2)] assms(1,3)
  by (auto dest: in_set_takeD)

lemma xsend_ok:
  assumes "packet_size p \<le> tx_credit (xs_sock x)"
  shows "\<exists>sk. xsend xe (encode (x_host xe) p m) x = Ok (1, x\<lparr>xs_sock := sk\<rparr>) \<and>
           tx_bytes sk = tx_bytes (xs_sock x) @ wire_of p \<and> rx_bytes sk = rx_bytes (xs_sock x) \<and>
           tx_credit (xs_sock x) \<le> tx_credit sk + packet_size p \<and> rx_credit sk = rx_credit (xs_sock x)"
  using chan.send_ok [OF assms, of "x_host xe" m] by (auto simp: xsend_def)

text \<open>The packets the parent sends about a job.\<close>

definition job_reports :: "xenv \<Rightarrow> u16 \<Rightarrow> packet list" where
  "job_reports xe j =
     (if x_fork xe = -1 then [JobDone j 41]
      else [JobRun j, case x_wait xe of WSignaled sg \<Rightarrow> JobSig j sg | WExited st \<Rightarrow> JobDone j st
                      | _ \<Rightarrow> JobRun j])"

definition child_ended :: "xenv \<Rightarrow> bool" where
  "child_ended xe \<longleftrightarrow> x_fork xe = -1 \<or> (\<exists>st. x_wait xe = WExited st) \<or> (\<exists>sg. x_wait xe = WSignaled sg)"

text \<open>What the user is to read about a job in the end.\<close>

definition ending :: "xenv \<Rightarrow> JOB_STATE \<times> u8" where
  "ending xe =
     (if x_fork xe = -1 then (STATE_ERROR, 41)
      else case x_wait xe of
             WSignaled sg \<Rightarrow> (STATE_SIGNALED, sg)
           | WExited st \<Rightarrow> (if st = 40 \<or> st = 41 then STATE_ERROR else STATE_FINISHED, st)
           | _ \<Rightarrow> (STATE_RUN, 0))"

definition report_size :: nat where
  "report_size = sizeof_Header + sizeof_Job_State"

lemma father_ok:
  assumes "x_wait xe = WExited st \<or> x_wait xe = WSignaled sg" "x_fork xe \<noteq> -1"
    and "2 * report_size \<le> tx_credit (xs_sock x)"
  shows "\<exists>sk. fatherJobRoutine xe j x = Ok (x\<lparr>xs_sock := sk\<rparr>) \<and>
           tx_bytes sk = tx_bytes (xs_sock x) @ concat (map wire_of (job_reports xe j)) \<and>
           rx_bytes sk = rx_bytes (xs_sock x)"
proof -
  let ?e = "x_host xe" and ?m = "x_stack xe"
  have sz: "packet_size (JobRun j) = report_size" "packet_size (JobDone j a) = report_size"
    "packet_size (JobSig j a) = report_size" for a
    by (simp_all add: report_size_def)
  obtain sk where sk: "xsend xe (encode ?e (JobRun j) ?m) x = Ok (1, x\<lparr>xs_sock := sk\<rparr>)"
    "tx_bytes sk = tx_bytes (xs_sock x) @ wire_of (JobRun j)" "rx_bytes sk = rx_bytes (xs_sock x)"
    "report_size \<le> tx_credit sk"
    using xsend_ok [of "JobRun j" x xe ?m] assms(3) unfolding sz by auto
  have "\<exists>sk'. xsend xe (encode ?e p ?m) (x\<lparr>xs_sock := sk\<rparr>) = Ok (1, x\<lparr>xs_sock := sk'\<rparr>) \<and>
      tx_bytes sk' = tx_bytes sk @ wire_of p \<and> rx_bytes sk' = rx_bytes sk"
    if "packet_size p = report_size" for p
    using xsend_ok [of p "x\<lparr>xs_sock := sk\<rparr>" xe ?m] sk(4) that by auto
  from this [OF sz(2), of st] this [OF sz(3), of sg] show ?thesis
    using assms(1,2) sk by (auto simp: fatherJobRoutine_def job_reports_def)
qed

text \<open>A job message, interactive or not, and the id it carries.\<close>

definition job_msg :: "packet \<Rightarrow> u16 \<Rightarrow> bool" where
  "job_msg pk j \<longleftrightarrow> (\<exists>f d. pk = SendJobNoInter f d j) \<or> (\<exists>f d ip port. pk = SendJobInter f d ip port j)"

lemma execJob_ok:
  assumes "job_msg pk j" "child_ended xe" "2 * report_size \<le> tx_credit (xs_sock x)"
  shows "\<exists>sk. execJob xe (encode (x_host xe) pk m) x = Ok (True, x\<lparr>xs_sock := sk\<rparr>) \<and>
           tx_bytes sk = tx_bytes (xs_sock x) @ concat (map wire_of (job_reports xe j)) \<and>
           rx_bytes sk = rx_bytes (xs_sock x)"
proof (cases "x_fork xe = -1")
  case True
  have "packet_size (JobDone j 41) \<le> tx_credit (xs_sock x)" using assms(3) by (simp add: report_size_def)
  from xsend_ok [OF this, of xe "x_stack xe"] show ?thesis
    using assms(1) True
    by (auto simp: execJob_def error_fork_def job_msg_def job_reports_def get_job Let_def
        simp del: encode.simps(10,11) Type_u8.simps)
next
  case False
  then obtain st sg where "x_wait xe = WExited st \<or> x_wait xe = WSignaled sg"
    using assms(2) by (auto simp: child_ended_def)
  from father_ok [OF this False assms(3), of j] show ?thesis
    using assms(1) False
    by (auto simp: execJob_def exec_server_protocol_father_def job_msg_def get_job
        simp del: encode.simps(10,11) Type_u8.simps)
qed

lemma sendAck_ok:
  assumes "packet_size ChExecSerAck \<le> tx_credit (xs_sock x)"
  shows "\<exists>sk. sendAck xe x = Ok (True, x\<lparr>xs_clock := xs_clock x + ACK_SLEEP, xs_sock := sk\<rparr>) \<and>
           tx_bytes sk = tx_bytes (xs_sock x) @ wire_of ChExecSerAck \<and> rx_bytes sk = rx_bytes (xs_sock x) \<and>
           tx_credit (xs_sock x) \<le> tx_credit sk + packet_size ChExecSerAck \<and>
           rx_credit sk = rx_credit (xs_sock x)"
  using xsend_ok [of ChExecSerAck "x\<lparr>xs_clock := xs_clock x + ACK_SLEEP\<rparr>" xe "x_stack xe"] assms
  by (auto simp: sendAck_def)

lemma protocol_job:
  assumes "job_msg pk j" "child_ended xe" "2 * report_size \<le> tx_credit (xs_sock x)"
    and "packet_size pk \<le> rx_credit (xs_sock x)" "rx_bytes (xs_sock x) = wire_of pk @ rest"
  shows "\<exists>sk. exec_server_protocol xe x = Ok (True, x\<lparr>xs_sock := sk\<rparr>) \<and>
           tx_bytes sk = tx_bytes (xs_sock x) @ concat (map wire_of (job_reports xe j)) \<and>
           rx_bytes sk = rest"
proof -
  let ?e = "x_host xe" and ?m = "x_stack xe"
  obtain sk where sk: "recvMsg ?e (xs_sock x) ?m = Ok (1, encode ?e pk ?m, sk)" "rx_bytes sk = rest"
    "tx_bytes sk = tx_bytes (xs_sock x)" "tx_credit sk = tx_credit (xs_sock x)"
    using chan.recv_ok [OF assms(4,5), of ?e ?m] by auto
  from execJob_ok [OF assms(1,2), of "x\<lparr>xs_sock := sk\<rparr>" ?m] assms(3) sk(2-4) obtain sk' where
    "execJob xe (encode ?e pk ?m) (x\<lparr>xs_sock := sk\<rparr>) = Ok (True, x\<lparr>xs_sock := sk'\<rparr>)"
    "tx_bytes sk' = tx_bytes (xs_sock x) @ concat (map wire_of (job_reports xe j))" "rx_bytes sk' = rest"
    by auto
  then show ?thesis
    using sk(1) assms(1)
    by (subst exec_server_protocol.simps) (auto simp: Type_of_encode job_msg_def
        simp del: encode.simps Type_u8.simps)
qed

lemma protocol_check:
  assumes "packet_size ChExecSer \<le> rx_credit (xs_sock x)"
    and "rx_bytes (xs_sock x) = wire_of ChExecSer @ rest"
    and "packet_size ChExecSerAck \<le> tx_credit (xs_sock x)"
  shows "\<exists>sk. exec_server_protocol xe x =
             exec_server_protocol xe (x\<lparr>xs_clock := xs_clock x + ACK_SLEEP, xs_sock := sk\<rparr>) \<and>
           tx_bytes sk = tx_bytes (xs_sock x) @ wire_of ChExecSerAck \<and> rx_bytes sk = rest \<and>
           tx_credit (xs_sock x) \<le> tx_credit sk + packet_size ChExecSerAck \<and>
           rx_credit (xs_sock x) \<le> rx_credit sk + packet_size ChExecSer"
proof -
  let ?e = "x_host xe" and ?m = "x_stack xe"
  obtain sk where sk: "recvMsg ?e (xs_sock x) ?m = Ok (1, encode ?e ChExecSer ?m, sk)" "rx_bytes sk = rest"
    "tx_bytes sk = tx_bytes (xs_sock x)" "tx_credit sk = tx_credit (xs_sock x)"
    "rx_credit (xs_sock x) \<le> rx_credit sk + packet_size ChExecSer"
    using chan.recv_ok [OF assms(1,2), of ?e ?m] by auto
  from sendAck_ok [of "x\<lparr>xs_sock := sk\<rparr>" xe] assms(3) sk(2-4) obtain sk' where sk':
    "sendAck xe (x\<lparr>xs_sock := sk\<rparr>) = Ok (True, x\<lparr>xs_clock := xs_clock x + ACK_SLEEP, xs_sock := sk'\<rparr>)"
    "tx_bytes sk' = tx_bytes (xs_sock x) @ wire_of ChExecSerAck" "rx_bytes sk' = rest"
    "tx_credit (xs_sock x) \<le> tx_credit sk' + packet_size ChExecSerAck" "rx_credit sk' = rx_credit sk"
    by auto
  have "exec_server_protocol xe x = ackRoutine xe (x\<lparr>xs_sock := sk\<rparr>)"
    using sk(1) by (subst exec_server_protocol.simps) (simp add: Type_of_encode
        del: encode.simps Type_u8.simps)
  then show ?thesis
    using sk' sk(5) by (subst (asm) ackRoutine.simps) auto
qed

section \<open>Properties\<close>

text \<open>Example data: a child whose system calls all succeed except possibly \<open>chdir\<close>.\<close>

definition ex_cenv :: "bool \<Rightarrow> cenv" where
  "ex_cenv cd = \<lparr>c_open_out = 3, c_open_err = 4, c_open_null = 5, c_dup_out = True,
     c_dup_err = True, c_dup_in = True, c_chdir = cd, c_host = (\<lambda>a. Some a), c_socket = 6, c_connect = 0\<rparr>"

definition ex_proc :: proc where
  "ex_proc = \<lparr>pr_out = Inherited, pr_err = Inherited, pr_in = Inherited, pr_cwd = None\<rparr>"



text \<open>C38: a command line of 256 bytes or more reaches the execution server without its terminator, and
  unless it has twenty tokens in its first 256 bytes, splitting it reads behind the copy on the
  child's stack.\<close>

theorem long_line_overruns:
  assumes "0 \<notin> set f" "SZ_PATH \<le> length f" "length (tokens (take SZ_PATH f)) < ARG_MAX_args"
  shows "consumeJob ce e (encode e' (SendJobNoInter f d j) m) pr = Fail OutOfBounds"
  using line_args_cut [OF assms]
  by (simp add: consumeJob_def get_job del: encode.simps Type_u8.simps)

lemma dec_unat_inj: "dec (unat i) = dec (unat j) \<longleftrightarrow> i = j"
  using digits_val_dec by (metis of_nat_eq_iff word_unat_eq_iff)

lemma tokens_one: "s \<noteq> [] \<Longrightarrow> \<forall>c\<in>set s. \<not> is_delim c \<Longrightarrow> tokens s = [s]"
  by (cases s) (auto simp: takeWhile_eq_all_conv dropWhile_eq_Nil_conv [THEN iffD2])

theorem long_line_overruns_witness:
  "consumeJob (ex_cenv True) LE (encode LE (SendJobNoInter (replicate 256 65) [47] 7) (\<lambda>_. 0)) ex_proc =
     Fail OutOfBounds"
proof (rule long_line_overruns)
  have "tokens (replicate 256 (65 :: u8)) = [replicate 256 65]"
    by (rule tokens_one) (auto simp: is_delim_def)
  then show "length (tokens (take SZ_PATH (replicate 256 (65 :: u8)))) < ARG_MAX_args"
    by (simp add: const_defs)
qed (simp_all add: const_defs)



text \<open>C16: the life of a job on the execution server. After a request, the server answers the check of
  the main server, gets the job, and its parent process reports that it runs and how it ended (or
  that \<open>fork\<close> failed); it returns 1 and has sent exactly these messages in this order, and the
  acknowledgement has taken six seconds.\<close>

theorem job_request_cycle:
  assumes "job_msg pk j" "child_ended xe"
    and "packet_size JobReq + packet_size ChExecSerAck + 2 * report_size \<le> tx_credit (xs_sock x)"
    and "packet_size ChExecSer + packet_size pk \<le> rx_credit (xs_sock x)"
    and "rx_bytes (xs_sock x) = wire_of ChExecSer @ wire_of pk @ rest"
  shows "\<exists>x'. jobRequest xe x = Ok (True, x') \<and> xs_clock x' = xs_clock x + ACK_SLEEP \<and>
           rx_bytes (xs_sock x') = rest \<and>
           tx_bytes (xs_sock x') = tx_bytes (xs_sock x) @
             concat (map wire_of ([JobReq, ChExecSerAck] @ job_reports xe j))"
proof -
  let ?e = "x_host xe" and ?m = "x_stack xe"
  obtain sk where sk: "xsend xe (encode ?e JobReq ?m) x = Ok (1, x\<lparr>xs_sock := sk\<rparr>)"
    "tx_bytes sk = tx_bytes (xs_sock x) @ wire_of JobReq"
    "rx_bytes sk = wire_of ChExecSer @ wire_of pk @ rest"
    "tx_credit (xs_sock x) \<le> tx_credit sk + packet_size JobReq" "rx_credit sk = rx_credit (xs_sock x)"
    using xsend_ok [of JobReq x xe ?m] assms(3,5) by auto
  let ?x1 = "x\<lparr>xs_sock := sk\<rparr>"
  obtain sk2 where sk2: "exec_server_protocol xe ?x1 =
      exec_server_protocol xe (x\<lparr>xs_clock := xs_clock x + ACK_SLEEP, xs_sock := sk2\<rparr>)"
    "tx_bytes sk2 = tx_bytes sk @ wire_of ChExecSerAck" "rx_bytes sk2 = wire_of pk @ rest"
    "tx_credit sk \<le> tx_credit sk2 + packet_size ChExecSerAck"
    "rx_credit sk \<le> rx_credit sk2 + packet_size ChExecSer"
    using protocol_check [of ?x1 "wire_of pk @ rest" xe] sk assms(3,4) by auto
  let ?x2 = "x\<lparr>xs_clock := xs_clock x + ACK_SLEEP, xs_sock := sk2\<rparr>"
  have "2 * report_size \<le> tx_credit (xs_sock ?x2)" "packet_size pk \<le> rx_credit (xs_sock ?x2)"
    using sk(4,5) sk2(4,5) assms(3,4) by auto
  from protocol_job [OF assms(1,2) this, of rest] obtain sk3 where
    "exec_server_protocol xe ?x2 = Ok (True, ?x2\<lparr>xs_sock := sk3\<rparr>)"
    "tx_bytes sk3 = tx_bytes sk2 @ concat (map wire_of (job_reports xe j))" "rx_bytes sk3 = rest"
    using sk2(3) by auto
  then show ?thesis
    using sk sk2 by (intro exI [of _ "?x2\<lparr>xs_sock := sk3\<rparr>"]) (simp add: jobRequest_def)
qed

theorem job_request_cycle_witness:
  "\<exists>x'. jobRequest \<lparr>x_host = LE, x_stack = (\<lambda>_. 0), x_fork = 42, x_wait = WExited 3\<rparr>
       \<lparr>xs_sock = \<lparr>rx_ev = map IoN (replicate 600 0),
          rx_bytes = wire_of ChExecSer @ wire_of (SendJobNoInter [108, 115] [47] 7),
          tx_ev = map IoN (replicate 40 0), tx_bytes = [], sel_ev = []\<rparr>, xs_clock = 0\<rparr> = Ok (True, x') \<and>
     xs_clock x' = 6 \<and>
     tx_bytes (xs_sock x') = concat (map wire_of [JobReq, ChExecSerAck, JobRun 7, JobDone 7 3])"
proof -
  let ?xe = "\<lparr>x_host = LE, x_stack = (\<lambda>_. 0), x_fork = 42, x_wait = WExited 3\<rparr>"
  let ?x = "\<lparr>xs_sock = \<lparr>rx_ev = map IoN (replicate 600 0),
      rx_bytes = wire_of ChExecSer @ wire_of (SendJobNoInter [108, 115] [47] 7),
      tx_ev = map IoN (replicate 40 0), tx_bytes = [], sel_ev = []\<rparr>, xs_clock = 0\<rparr>"
  have tw: "takeWhile is_IoN (replicate n (IoN 0)) = replicate n (IoN 0)" for n
    by (simp add: takeWhile_eq_all_conv)
  have "job_msg (SendJobNoInter [108, 115] [47] 7) 7" "child_ended ?xe"
    by (auto simp: job_msg_def child_ended_def)
  moreover have "packet_size JobReq + packet_size ChExecSerAck + 2 * report_size \<le> tx_credit (xs_sock ?x)"
    "packet_size ChExecSer + packet_size (SendJobNoInter [108, 115] [47] 7) \<le> rx_credit (xs_sock ?x)"
    by (simp_all add: tx_credit_def rx_credit_def tw report_size_def layout const_defs)
  ultimately show ?thesis
    using job_request_cycle [of "SendJobNoInter [108, 115] [47] 7" 7 ?xe ?x "[]"]
    by (auto simp: job_reports_def ACK_SLEEP_def)
qed

text \<open>C39: jobs that never ran. If \<open>execvp\<close> fails, the child exits with 40 and the job counts as an
  error. But if the client of an interactive job cannot be found, the child exits with 0, and a
  program that was never started counts as finished with status 0; and a blank command line makes
  \<open>execvp\<close> read a null pointer, so that the job counts as killed by a signal.\<close>

theorem never_ran_endings:
  assumes "0 \<notin> set f" "length f < SZ_PATH" "x_fork xe \<noteq> -1" "c_host ce (htonl e ip) = None"
  shows "\<exists>w v. execJob_child ce e (encode e' (SendJobNoInter f d j) m) pr None = Ok w \<and>
           ending (xe\<lparr>x_wait := w\<rparr>) = (if tokens f = [] then (STATE_SIGNALED, 11) else (STATE_ERROR, 40)) \<and>
           execJob_child ce e (encode e' (SendJobInter f d ip port j) m) pr prog = Ok v \<and>
           ending (xe\<lparr>x_wait := v\<rparr>) = (STATE_FINISHED, 0)"
proof -
  have "consumeJob ce e (encode e' (SendJobInter f d ip port j) m) pr = Fail (ProcExit 0)"
    using assms(4) by (simp add: consumeJob_def setFDsIter_def socketPortConnect_def get_job_addr
        del: encode.simps Type_u8.simps)
  then have v: "execJob_child ce e (encode e' (SendJobInter f d ip port j) m) pr prog = Ok (WExited 0)"
    by (simp add: execJob_child_def exec_server_protocol_child_def del: encode.simps)
  have w: "execJob_child ce e (encode e' (SendJobNoInter f d j) m) pr None =
      Ok (if tokens f = [] then WSignaled 11 else WExited 40)"
    using consumeJob_tokens [OF assms(1,2)] consumeJob_blank [OF assms(1,2)]
    by (simp add: execJob_child_def exec_server_protocol_child_def del: encode.simps)
  show ?thesis using assms(3) v w by (simp add: ending_def del: encode.simps)
qed

theorem never_ran_endings_witness:
  "\<exists>w v. execJob_child ((ex_cenv True)\<lparr>c_host := (\<lambda>_. None)\<rparr>) LE
       (encode LE (SendJobNoInter [108, 115] [47] 7) (\<lambda>_. 0)) ex_proc None = Ok w \<and>
     ending \<lparr>x_host = LE, x_stack = (\<lambda>_. 0), x_fork = 42, x_wait = w\<rparr> = (STATE_ERROR, 40) \<and>
     execJob_child ((ex_cenv True)\<lparr>c_host := (\<lambda>_. None)\<rparr>) LE
       (encode LE (SendJobInter [108, 115] [47] 1 2 7) (\<lambda>_. 0)) ex_proc None = Ok v \<and>
     ending \<lparr>x_host = LE, x_stack = (\<lambda>_. 0), x_fork = 42, x_wait = v\<rparr> = (STATE_FINISHED, 0)"
proof -
  let ?ce = "(ex_cenv True)\<lparr>c_host := (\<lambda>_. None)\<rparr>"
  let ?xe = "\<lparr>x_host = LE, x_stack = (\<lambda>_. 0), x_fork = 42, x_wait = WOther\<rparr>"
  have "tokens [108, 115] \<noteq> []" by (simp add: is_delim_def)
  then show ?thesis
    using never_ran_endings [of "[108, 115]" ?xe ?ce LE 1 LE "[47]" 7 "\<lambda>_. 0" ex_proc 2 None]
    by (simp add: SZ_PATH_def del: encode.simps tokens.simps)
qed

end
