(* ===== verification/Client.thy ===== *)
theory Client
  imports Transport
begin

text \<open>
  The client, \<open>client.c\<close>: a command loop over the characters the user types, one request and one
  answer per command, and the relay between terminal and program for an interactive job. What it
  prints is modelled as text.
\<close>

section \<open>State\<close>

text \<open>What the system provides while one command runs: the host, the contents of an uninitialised
  \<open>Msg\<close>, what \<open>getcwd\<close> returns, and for an interactive job the address of the interface and the port
  of the new socket, as they are stored (in network byte order), and the socket's descriptor.\<close>

record clenv =
  cl_host :: endian
  cl_stack :: mem
  cl_cwd :: "u8 list option"
  cl_addr :: u32
  cl_port :: u16
  cl_sock :: int

text \<open>One round of \<open>select\<close> in the relay of an interactive job: an error, or what a \<open>read\<close> of the
  program's socket and of the terminal returns if they are ready (\<open>None\<close> inside for -1), and what the
  following \<open>write\<close> returns.\<close>

datatype relay_ev = RelErr | RelReady "u8 list option option" "u8 list option option" int

text \<open>The terminal, the message object of \<open>main\<close>, the connection to the main server, and for each
  interactive job still to come what \<open>accept\<close> returns and the rounds of its relay; \<open>cs_prog\<close> is what
  the programs were sent.\<close>

record clstate =
  cs_in :: string
  cs_out :: string
  cs_pkg :: mem
  cs_sock :: sock
  cs_relay :: "(int \<times> relay_ev list) list"
  cs_prog :: "u8 list"

definition put_str :: "string \<Rightarrow> clstate \<Rightarrow> clstate" where
  "put_str t c = c\<lparr>cs_out := cs_out c @ t\<rparr>"

section \<open>Requests\<close>

definition csend :: "clenv \<Rightarrow> clstate \<Rightarrow> clstate outcome" where
  "csend ce c = bnd (sendMsg (cl_host ce) (cs_sock c) (cs_pkg c)) (\<lambda>(err, sk). Ok (c\<lparr>cs_sock := sk\<rparr>))"

definition getArgsSubmit :: "clenv \<Rightarrow> clstate \<Rightarrow> clstate outcome" where
  "getArgsSubmit ce c =
     bnd (get_line (cs_in c)) (\<lambda>(line, inp).
       let c = c\<lparr>cs_in := inp\<rparr> in
       case cl_cwd ce of
         None \<Rightarrow> Ok c
       | Some buff \<Rightarrow>
           csend ce (c\<lparr>cs_pkg := setFileExecNoInter_CLIENT (cl_host ce) (cs_pkg c) line buff 0\<rparr>))"

definition inet_ntoa :: "endian \<Rightarrow> u32 \<Rightarrow> string" where
  "inet_ntoa e a =
     (let w = ntohl e a
      in dec (unat (hi8 (hi16 w))) @ ''.'' @ dec (unat (lo8 (hi16 w))) @ ''.'' @
         dec (unat (hi8 (lo16 w))) @ ''.'' @ dec (unat (lo8 (lo16 w))))"

definition getArgsSubmitInt :: "clenv \<Rightarrow> clstate \<Rightarrow> (int \<times> clstate) outcome" where
  "getArgsSubmitInt ce c =
     bnd (get_line (cs_in c)) (\<lambda>(line, inp).
       let c = c\<lparr>cs_in := inp\<rparr> in
       case cl_cwd ce of
         None \<Rightarrow> Ok (-1, c)
       | Some buff \<Rightarrow>
           (let c = put_str (''My address: '' @ inet_ntoa (cl_host ce) (cl_addr ce) @ '' x: '' @
                             dec (unat (ntohs (cl_host ce) (cl_port ce))) @ '' '' @ [NL]) c
            in bnd (csend ce (c\<lparr>cs_pkg := setFileExecInter_CLIENT (cl_host ce) (cs_pkg c) line buff
                                  (cl_addr ce) (cl_port ce) 0\<rparr>)) (\<lambda>c. Ok (cl_sock ce, c))))"

text \<open>The number is assigned to a field of 16 or of 8 bits.\<close>

definition JobState :: "clenv \<Rightarrow> string \<Rightarrow> clstate \<Rightarrow> clstate outcome" where
  "JobState ce to_jobid c =
     bnd (atoi to_jobid) (\<lambda>n.
       csend ce (c\<lparr>cs_pkg := setJobState_CLIENT (cl_host ce) (cs_pkg c) \<lparr>job_id = of_int n\<rparr>\<rparr>))"

definition QueueState :: "clenv \<Rightarrow> string \<Rightarrow> clstate \<Rightarrow> clstate outcome" where
  "QueueState ce to_queue_idx c =
     bnd (atoi to_queue_idx) (\<lambda>n.
       csend ce (c\<lparr>cs_pkg := setQueueState_CLIENT (cl_host ce) (cs_pkg c) \<lparr>queue_id = of_int n\<rparr>\<rparr>))"

definition unsubmit_req :: "clenv \<Rightarrow> string \<Rightarrow> clstate \<Rightarrow> clstate outcome" where
  "unsubmit_req ce to_jobid c =
     bnd (atoi to_jobid) (\<lambda>n.
       csend ce (c\<lparr>cs_pkg := setUnsubmit_CLIENT (cl_host ce) (cs_pkg c) \<lparr>job_id = of_int n\<rparr>\<rparr>))"

section \<open>Answers\<close>

definition jobSubmittedResponse :: "endian \<Rightarrow> mem \<Rightarrow> string" where
  "jobSubmittedResponse e pkg = ''Job submitted -> JobID: '' @ dec (unat (getJobID e pkg)) @ '' '' @ [NL]"

definition jobStateResponse :: "endian \<Rightarrow> mem \<Rightarrow> string" where
  "jobStateResponse e pkg =
     (let job_id = getJobState_ID e pkg; state = getJobState_State pkg;
          exit_value = dec (unat (getJobState_ExitValue pkg))
      in ''JobID '' @ dec (unat job_id) @ '' - '' @
         (case JOB_STATE_of state of
            Some STATE_WAIT \<Rightarrow> ''STATE_WAIT '' @ [NL]
          | Some STATE_RUN \<Rightarrow> ''STATE_RUN '' @ [NL]
          | Some STATE_FINISHED \<Rightarrow> ''STATE_FINISHED - ExitStat : '' @ exit_value @ [NL]
          | Some STATE_UNSUBMITED \<Rightarrow> ''STATE_UNSUBMITED '' @ [NL]
          | Some STATE_SIGNALED \<Rightarrow> ''STATE_SIGNALED - ExitStat : '' @ exit_value @ [NL]
          | Some STATE_ERROR \<Rightarrow> ''STATE_ERROR - ExitStat : '' @ exit_value @ [NL]
          | None \<Rightarrow> []))"

definition badParamsResponse :: string where
  "badParamsResponse = ''Bad parameters sent '' @ [NL]"

definition queueStateResponse :: "mem \<Rightarrow> string" where
  "queueStateResponse pkg =
     ''QueueID '' @ dec (unat (getQueueState_ID pkg)) @ '' - '' @
     (if getQueueState_State pkg = QUEUE_STATE_u8 STATE_AVAIL then ''STATE_AVAIL '' @ [NL]
      else if getQueueState_State pkg = QUEUE_STATE_u8 STATE_FULL then ''STATE_FULL '' @ [NL]
      else [])"

definition unsubmitResponse :: "endian \<Rightarrow> mem \<Rightarrow> string" where
  "unsubmitResponse e pkg = ''JobID '' @ dec (unat (getJobID e pkg)) @ '' unsubmited'' @ [NL]"

definition client_protocol :: "clenv \<Rightarrow> clstate \<Rightarrow> clstate outcome" where
  "client_protocol ce c =
     bnd (recvMsg (cl_host ce) (cs_sock c) (cl_stack ce)) (\<lambda>(err, pkg, sk).
       let c = c\<lparr>cs_sock := sk\<rparr> in
       if err = 1 then
         Ok (put_str (case Type_of (getType pkg) of
               Some TYPE_SUB_RESP \<Rightarrow> jobSubmittedResponse (cl_host ce) pkg
             | Some TYPE_JOBSTATE_RESP \<Rightarrow> jobStateResponse (cl_host ce) pkg
             | Some TYPE_QUESTATE_RESP \<Rightarrow> queueStateResponse pkg
             | Some TYPE_UNSUB_RESP \<Rightarrow> unsubmitResponse (cl_host ce) pkg
             | Some TYPE_BAD_PARAMS \<Rightarrow> badParamsResponse
             | _ \<Rightarrow> []) c)
       else if err = 0 then Ok (put_str (''Socket closed. '' @ [NL]) c)
       else Ok c)"

section \<open>The relay of an interactive job\<close>

text \<open>A chunk goes from one descriptor to the other; \<open>None\<close> for the end of the relay. The buffer has
  256 bytes. The socket goes first.\<close>

fun interaction_1 :: "relay_ev list \<Rightarrow> clstate \<Rightarrow> clstate outcome" where
  "interaction_1 [] c = Wait"
| "interaction_1 (RelErr # evs) c = Ok c"
| "interaction_1 (RelReady (Some r) inp w # evs) c =
     (case r of
        None \<Rightarrow> Ok (put_str (''Reading sockfd '' @ dec_int (-1) @ '' '' @ [NL]) c)
      | Some bs \<Rightarrow>
          (let buff = take 256 bs in
           if buff = [] then Ok (put_str (''Reading sockfd '' @ dec_int 0 @ '' '' @ [NL]) c)
           else if w \<le> 0 then Ok (put_str (''Writing sockfd '' @ dec_int w @ '' '' @ [NL]) c)
           else interaction_1 evs (put_str (map (\<lambda>b. char_of (unat b)) (take (nat w) buff)) c)))"
| "interaction_1 (RelReady None (Some r) w # evs) c =
     (case r of
        None \<Rightarrow> Ok (put_str (''Reading from stdin '' @ dec_int (-1) @ '' '' @ [NL]) c)
      | Some bs \<Rightarrow>
          (let buff = take 256 bs in
           if buff = [] then Ok (put_str (''Reading from stdin '' @ dec_int 0 @ '' '' @ [NL]) c)
           else if w \<le> 0 then Ok (put_str (''Writing on sockfd '' @ dec_int w @ '' '' @ [NL]) c)
           else interaction_1 evs (c\<lparr>cs_prog := cs_prog c @ take (nat w) buff\<rparr>)))"
| "interaction_1 (RelReady None None w # evs) c = Fail AssertFail"

text \<open>\<open>accept\<close> on an invalid descriptor fails, whatever the system would answer.\<close>

definition client_accept :: "int \<Rightarrow> clstate \<Rightarrow> clstate outcome" where
  "client_accept sock c =
     (if sock < 0 then Ok c
      else case cs_relay c of
             [] \<Rightarrow> Wait
           | (acc, evs) # rounds \<Rightarrow>
               (let c = c\<lparr>cs_relay := rounds\<rparr> in
                if acc < 0 then Ok c
                else interaction_1 evs (put_str (''Connected to exec_server... '' @ [NL]) c)))"

section \<open>The command loop\<close>

lemma put_str_in [simp]: "cs_in (put_str t c) = cs_in c" "cs_sock (put_str t c) = cs_sock c"
  "cs_out (put_str t c) = cs_out c @ t" "cs_prog (put_str t c) = cs_prog c"
  "cs_pkg (put_str t c) = cs_pkg c"
  by (simp_all add: put_str_def)

lemma csend_in: "csend ce c = Ok c' \<Longrightarrow> cs_in c' = cs_in c"
  by (auto simp: csend_def bnd_eq_Ok_iff)

lemma getArgsSubmit_in: "getArgsSubmit ce c = Ok c' \<Longrightarrow> length (cs_in c') < length (cs_in c)"
  by (auto simp: getArgsSubmit_def bnd_eq_Ok_iff Let_def dest!: get_line_shrinks csend_in
    split: option.splits)

lemma getArgsSubmitInt_in:
  "getArgsSubmitInt ce c = Ok (sock, c') \<Longrightarrow> length (cs_in c') < length (cs_in c)"
  by (auto simp: getArgsSubmitInt_def bnd_eq_Ok_iff Let_def dest!: get_line_shrinks csend_in
    split: option.splits)

lemma JobState_in: "JobState ce w c = Ok c' \<Longrightarrow> cs_in c' = cs_in c"
  by (auto simp: JobState_def bnd_eq_Ok_iff dest!: csend_in)

lemma QueueState_in: "QueueState ce w c = Ok c' \<Longrightarrow> cs_in c' = cs_in c"
  by (auto simp: QueueState_def bnd_eq_Ok_iff dest!: csend_in)

lemma unsubmit_req_in: "unsubmit_req ce w c = Ok c' \<Longrightarrow> cs_in c' = cs_in c"
  by (auto simp: unsubmit_req_def bnd_eq_Ok_iff dest!: csend_in)

lemma client_protocol_in: "client_protocol ce c = Ok c' \<Longrightarrow> cs_in c' = cs_in c"
  by (auto simp: client_protocol_def bnd_eq_Ok_iff Let_def split: if_splits)

lemma interaction_1_in: "interaction_1 evs c = Ok c' \<Longrightarrow> cs_in c' = cs_in c"
  by (induction evs c rule: interaction_1.induct) (auto simp: Let_def split: option.splits if_splits)

lemma client_accept_in: "client_accept sock c = Ok c' \<Longrightarrow> cs_in c' = cs_in c"
  by (auto simp: client_accept_def Let_def dest!: interaction_1_in split: list.splits if_splits)

lemmas keeps_in = JobState_in QueueState_in unsubmit_req_in client_protocol_in client_accept_in
lemmas shrinks_in = getArgsSubmit_in getArgsSubmitInt_in scan_word_shrinks

text \<open>A word and the loop's bookkeeping: the argument of a command is read like the command.\<close>

definition read_word :: "clstate \<Rightarrow> (string \<times> clstate) outcome" where
  "read_word c = bnd (scan_word (cs_in c)) (\<lambda>(w, inp). Ok (w, c\<lparr>cs_in := inp\<rparr>))"

lemma read_word_in: "read_word c = Ok (w, c') \<Longrightarrow> length (cs_in c') < length (cs_in c)"
  by (auto simp: read_word_def bnd_eq_Ok_iff dest!: scan_word_shrinks)

text \<open>The loop of \<open>main\<close>; \<open>ces n\<close> is what the system provides for the \<open>n\<close>-th command.\<close>

function client_loop :: "(nat \<Rightarrow> clenv) \<Rightarrow> nat \<Rightarrow> clstate \<Rightarrow> clstate outcome" where
  "client_loop ces n c =
     bnd (read_word (put_str prompt c)) (\<lambda>(command, c).
       if command = ''submit'' then
         bnd (getArgsSubmit (ces n) c) (\<lambda>c.
         bnd (client_protocol (ces n) c) (\<lambda>c. client_loop ces (Suc n) c))
       else if command = ''submiti'' then
         bnd (getArgsSubmitInt (ces n) c) (\<lambda>(new_sock, c).
         bnd (client_protocol (ces n) c) (\<lambda>c.
         bnd (client_accept new_sock c) (\<lambda>c. client_loop ces (Suc n) c)))
       else if command = ''statejob'' then
         bnd (read_word c) (\<lambda>(buffer, c).
         bnd (JobState (ces n) buffer c) (\<lambda>c.
         bnd (client_protocol (ces n) c) (\<lambda>c. client_loop ces (Suc n) c)))
       else if command = ''statequeue'' then
         bnd (read_word c) (\<lambda>(buffer, c).
         bnd (QueueState (ces n) buffer c) (\<lambda>c.
         bnd (client_protocol (ces n) c) (\<lambda>c. client_loop ces (Suc n) c)))
       else if command = ''unsubmit'' then
         bnd (read_word c) (\<lambda>(buffer, c).
         bnd (unsubmit_req (ces n) buffer c) (\<lambda>c.
         bnd (client_protocol (ces n) c) (\<lambda>c. client_loop ces (Suc n) c)))
       else if command = ''stop'' then
         csend (ces n) (c\<lparr>cs_pkg := setClosedConnection (cl_host (ces n)) (cs_pkg c)\<rparr>)
       else client_loop ces (Suc n) (put_str (''Bad command, try again '' @ [NL]) c))"
  by pat_completeness auto
termination
  by (relation "measure (\<lambda>(ces, n, c). length (cs_in c))")
    (auto dest!: read_word_in shrinks_in keeps_in)

declare client_loop.simps [simp del]

text \<open>The address a connection goes to, and what \<open>socket\<close>, \<open>gethostbyname\<close> and \<open>connect\<close> return.\<close>

record cnet =
  cn_socket :: int
  cn_host :: "u32 option"
  cn_connect :: int

text \<open>The result is the descriptor and the address connected to, in network byte order; every failure
  ends the program with status 0.\<close>

definition socketCreate_connect ::
  "endian \<Rightarrow> cnet \<Rightarrow> string \<Rightarrow> (int \<times> u32 \<times> u16) outcome" where
  "socketCreate_connect e cn port =
     bnd (atoi port) (\<lambda>portno.
       if cn_socket cn < 0 then Fail (ProcExit 0)
       else case cn_host cn of
              None \<Rightarrow> Fail (ProcExit 0)
            | Some h_addr \<Rightarrow>
                if cn_connect cn < 0 then Fail (ProcExit 0)
                else Ok (cn_socket cn, h_addr, htons e (of_int portno)))"

definition client_main ::
  "endian \<Rightarrow> cnet \<Rightarrow> (nat \<Rightarrow> clenv) \<Rightarrow> string list \<Rightarrow> clstate \<Rightarrow> clstate outcome" where
  "client_main e cn ces argv c =
     (if length argv < 3 then Fail (ProcExit 0)
      else bnd (socketCreate_connect e cn (argv ! 2)) (\<lambda>_. client_loop ces 0 c))"

end
