(* ===== verification/Session.thy ===== *)
theory Session
  imports Client
begin

text \<open>
  Whole sessions of the client: what a user who types a list of commands makes the client send, and
  what the answers make it print, for the ordinary commands and for an interactive job.
\<close>

section \<open>What a session looks like\<close>

datatype command =
    Submit string
  | StateJob nat
  | StateQueue nat
  | Unsubmit nat
  | Unknown string

text \<open>What the user types for a command.\<close>

fun typed :: "command \<Rightarrow> string" where
  "typed (Submit l) = ''submit '' @ l @ [NL]"
| "typed (StateJob n) = ''statejob '' @ dec n @ [NL]"
| "typed (StateQueue n) = ''statequeue '' @ dec n @ [NL]"
| "typed (Unsubmit n) = ''unsubmit '' @ dec n @ [NL]"
| "typed (Unknown w) = w @ [NL]"

definition is_word :: "string \<Rightarrow> bool" where
  "is_word w \<longleftrightarrow> w \<noteq> [] \<and> length w < 256 \<and> (\<forall>c\<in>set w. \<not> isspace c \<and> c \<noteq> CHR 0x00)"

fun typeable :: "command \<Rightarrow> bool" where
  "typeable (Submit l) = (NL \<notin> set l)"
| "typeable (Unknown w) = (is_word w \<and>
     w \<notin> set [''submit'', ''submiti'', ''statejob'', ''statequeue'', ''unsubmit'', ''stop''])"
| "typeable (StateJob n) = (n < 2 ^ 31)"
| "typeable (StateQueue n) = (n < 2 ^ 31)"
| "typeable (Unsubmit n) = (n < 2 ^ 31)"

text \<open>The request a command makes in directory \<open>d\<close>: the line with its newline; numbers are cut to the
  width of the field.\<close>

fun request :: "u8 list \<Rightarrow> command \<Rightarrow> packet list" where
  "request d (Submit l) = [SubNoInter (map of_char l @ [10]) d]"
| "request d (StateJob n) = [JobStateReq (of_nat n)]"
| "request d (StateQueue n) = [QueStateReq (of_nat n)]"
| "request d (Unsubmit n) = [Unsub (of_nat n)]"
| "request d (Unknown w) = []"

text \<open>What the user is shown for an answer.\<close>

fun shown :: "packet \<Rightarrow> string" where
  "shown (SubResp j) = ''Job submitted -> JobID: '' @ dec (unat j) @ '' '' @ [NL]"
| "shown (JobStateResp j st ex) = ''JobID '' @ dec (unat j) @ '' - '' @
     (case JOB_STATE_of st of
        Some STATE_WAIT \<Rightarrow> ''STATE_WAIT '' @ [NL]
      | Some STATE_RUN \<Rightarrow> ''STATE_RUN '' @ [NL]
      | Some STATE_FINISHED \<Rightarrow> ''STATE_FINISHED - ExitStat : '' @ dec (unat ex) @ [NL]
      | Some STATE_UNSUBMITED \<Rightarrow> ''STATE_UNSUBMITED '' @ [NL]
      | Some STATE_SIGNALED \<Rightarrow> ''STATE_SIGNALED - ExitStat : '' @ dec (unat ex) @ [NL]
      | Some STATE_ERROR \<Rightarrow> ''STATE_ERROR - ExitStat : '' @ dec (unat ex) @ [NL]
      | None \<Rightarrow> [])"
| "shown (QueStateResp q st) = ''QueueID '' @ dec (unat q) @ '' - '' @
     (if st = 0 then ''STATE_AVAIL '' @ [NL] else if st = 1 then ''STATE_FULL '' @ [NL] else [])"
| "shown (UnsubResp j) = ''JobID '' @ dec (unat j) @ '' unsubmited'' @ [NL]"
| "shown BadParams = ''Bad parameters sent '' @ [NL]"
| "shown _ = []"

fun transcript :: "command list \<Rightarrow> packet list \<Rightarrow> string" where
  "transcript [] as = prompt"
| "transcript (Unknown w # cmds) as = prompt @ ''Bad command, try again '' @ [NL] @ transcript cmds as"
| "transcript (cmd # cmds) (a # as) = prompt @ shown a @ transcript cmds as"
| "transcript (cmd # cmds) [] = prompt"

section \<open>Words and lines\<close>

lemma scan_word_typed:
  assumes "is_word w" "isspace s"
  shows "scan_word (w @ s # rest) = Ok (w, rest)"
proof -
  obtain c cs where w: "w = c # cs" using assms(1) by (cases w) (auto simp: is_word_def)
  have "dropWhile isspace (w @ s # rest) = w @ s # rest" using assms(1) w by (auto simp: is_word_def)
  moreover have "takeWhile (\<lambda>c. \<not> isspace c) (w @ s # rest) = w"
    "dropWhile (\<lambda>c. \<not> isspace c) (w @ s # rest) = s # rest"
    using assms by (auto simp: is_word_def takeWhile_append2 dropWhile_append2)
  moreover have "takeWhile (\<lambda>c. c \<noteq> CHR 0x00) w = w"
    using assms(1) by (auto simp: is_word_def takeWhile_eq_all_conv)
  ultimately show ?thesis using assms(1) unfolding scan_word_def scanf_s_def Let_def by (simp add: is_word_def)
qed

lemma get_line_typed:
  assumes "NL \<notin> set l"
  shows "get_line (l @ NL # rest) = Ok (map of_char l @ [10], rest)"
proof -
  have l: "c \<in> set l \<Longrightarrow> c \<noteq> NL" for c using assms by blast
  show ?thesis
    by (simp add: get_line_def takeWhile_append2 [OF l] dropWhile_append2 [OF l]) (simp add: NL_def)
qed

lemma isspace_NL [simp]: "isspace NL" "isspace CHR '' ''"
  by (simp_all add: isspace_def NL_def)

lemma dec_length: "n < 10 ^ Suc k \<Longrightarrow> length (dec n) \<le> Suc k"
proof (induction k arbitrary: n)
  case 0
  then show ?case by (subst dec.simps) simp
next
  case (Suc k)
  then have "n div 10 < 10 ^ Suc k" by (intro less_mult_imp_div_less) simp
  then have "length (dec (n div 10)) \<le> Suc k" by (rule Suc.IH)
  then show ?case by (subst dec.simps) simp
qed

lemma is_word_dec: "n < 2 ^ 31 \<Longrightarrow> is_word (dec n)"
proof -
  assume "n < 2 ^ 31"
  then have "length (dec n) \<le> 10" using dec_length [of n 9] by simp
  then show ?thesis using isdigit_dec by (fastforce simp: is_word_def isdigit_def isspace_def)
qed

lemma read_word_typed:
  assumes "cs_in c = w @ s # rest" "is_word w" "isspace s"
  shows "read_word c = Ok (w, c\<lparr>cs_in := rest\<rparr>)"
  using scan_word_typed [OF assms(2,3)] assms(1) by (simp add: read_word_def)

text \<open>A command word and its number.\<close>

lemma read_number:
  assumes "cs_in c = w @ '' '' @ dec k @ [NL] @ rest" "is_word w" "k < 2 ^ 31"
  shows "read_word c = Ok (w, c\<lparr>cs_in := dec k @ NL # rest\<rparr>)"
    "read_word (c\<lparr>cs_in := dec k @ NL # rest\<rparr>) = Ok (dec k, c\<lparr>cs_in := rest\<rparr>)"
  using read_word_typed [of c w "CHR '' ''" "dec k @ NL # rest"] assms
    read_word_typed [of "c\<lparr>cs_in := dec k @ NL # rest\<rparr>" "dec k" NL rest] is_word_dec
  by simp_all

section \<open>One command\<close>

text \<open>From \<open>c\<close> to \<open>c'\<close> the client has sent \<open>ps\<close>, received \<open>as\<close> and printed \<open>t\<close>.\<close>

definition advanced :: "packet list \<Rightarrow> packet list \<Rightarrow> string \<Rightarrow> clstate \<Rightarrow> clstate \<Rightarrow> bool" where
  "advanced ps as t c c' \<longleftrightarrow>
     cs_out c' = cs_out c @ t \<and>
     tx_bytes (cs_sock c') = tx_bytes (cs_sock c) @ concat (map wire_of ps) \<and>
     rx_bytes (cs_sock c) = concat (map wire_of as) @ rx_bytes (cs_sock c') \<and>
     tx_credit (cs_sock c) \<le> tx_credit (cs_sock c') + sum_list (map packet_size ps) \<and>
     rx_credit (cs_sock c) \<le> rx_credit (cs_sock c') + sum_list (map packet_size as)"

lemma advanced_trans:
  "advanced ps as t c c' \<Longrightarrow> advanced ps' as' t' c' c'' \<Longrightarrow>
   advanced (ps @ ps') (as @ as') (t @ t') c c''"
  by (simp add: advanced_def)

lemma advanced_in [simp]: "advanced ps as t (c\<lparr>cs_in := i\<rparr>) c' = advanced ps as t c c'"
  by (simp add: advanced_def)

lemma advanced_put: "advanced [] [] t c (put_str t c)"
  by (simp add: advanced_def)

lemma csend_ok:
  assumes "packet_size p \<le> tx_credit (cs_sock c)"
  obtains c' where "csend ce (c\<lparr>cs_pkg := encode (cl_host ce) p m\<rparr>) = Ok c'" "advanced [p] [] [] c c'"
    "cs_in c' = cs_in c"
proof -
  obtain sk where "sendMsg (cl_host ce) (cs_sock c) (encode (cl_host ce) p m) = Ok (1, sk)"
    "tx_bytes sk = tx_bytes (cs_sock c) @ wire_of p" "rx_bytes sk = rx_bytes (cs_sock c)"
    "tx_credit (cs_sock c) \<le> tx_credit sk + packet_size p" "rx_credit sk = rx_credit (cs_sock c)"
    using chan.send_ok [OF assms] by meson
  then show ?thesis
    using that [of "c\<lparr>cs_pkg := encode (cl_host ce) p m, cs_sock := sk\<rparr>"]
    by (simp add: csend_def advanced_def del: encode.simps)
qed

lemma response_shown:
  "jobSubmittedResponse e (encode e (SubResp j) m) = shown (SubResp j)"
  "jobStateResponse e (encode e (JobStateResp j st ex) m) = shown (JobStateResp j st ex)"
  "queueStateResponse (encode e (QueStateResp q st) m) = shown (QueStateResp q st)"
  "unsubmitResponse e (encode e (UnsubResp j) m) = shown (UnsubResp j)"
  by (simp_all add: jobSubmittedResponse_def jobStateResponse_def queueStateResponse_def
      unsubmitResponse_def get_answer Let_def del: encode.simps cong: option.case_cong)

lemma client_protocol_ok:
  assumes "rx_bytes (cs_sock c) = wire_of a @ r" "packet_size a \<le> rx_credit (cs_sock c)"
  obtains c' where "client_protocol ce c = Ok c'" "advanced [] [a] (shown a) c c'" "cs_in c' = cs_in c"
    "cs_relay c' = cs_relay c" "cs_prog c' = cs_prog c"
proof -
  let ?e = "cl_host ce"
  obtain sk where sk: "recvMsg ?e (cs_sock c) (cl_stack ce) = Ok (1, encode ?e a (cl_stack ce), sk)"
    "rx_bytes sk = r" "tx_bytes sk = tx_bytes (cs_sock c)" "tx_credit sk = tx_credit (cs_sock c)"
    "rx_credit (cs_sock c) \<le> rx_credit sk + packet_size a"
    using chan.recv_ok [OF assms(2,1)] by meson
  have "client_protocol ce c = Ok (put_str (shown a) (c\<lparr>cs_sock := sk\<rparr>))"
    by (cases a) (simp_all add: client_protocol_def sk(1) Type_of_encode response_shown
        badParamsResponse_def del: encode.simps Type_u8.simps)
  then show ?thesis
    using that [of "put_str (shown a) (c\<lparr>cs_sock := sk\<rparr>)"] sk assms(1) by (simp add: advanced_def put_str_def)
qed

text \<open>A command that makes a request: the loop sends it, prints the answer and goes on.\<close>

lemma loop_request:
  assumes "cs_in c = typed cmd @ rest" "typeable cmd" "request d cmd = [p]" "cl_cwd (ces n) = Some d"
    and "packet_size p \<le> tx_credit (cs_sock c)"
    and "rx_bytes (cs_sock c) = wire_of a @ r" "packet_size a \<le> rx_credit (cs_sock c)"
  obtains c' where "client_loop ces n c = client_loop ces (Suc n) c'" "cs_in c' = rest"
    "advanced [p] [a] (prompt @ shown a) c c'"
proof -
  let ?ce = "ces n" and ?c = "put_str prompt c"
  have word: "is_word ''submit''" "is_word ''statejob''" "is_word ''statequeue''" "is_word ''unsubmit''"
    by (simp_all add: is_word_def isspace_def)
  define pk where "pk = encode (cl_host ?ce) p (cs_pkg c)"
  obtain c1 where c1: "csend ?ce (?c\<lparr>cs_in := rest, cs_pkg := pk\<rparr>) = Ok c1"
    "advanced [p] [] [] ?c c1" "cs_in c1 = rest"
    using csend_ok [of p "?c\<lparr>cs_in := rest\<rparr>" ?ce "cs_pkg c"] assms(5) by (auto simp: pk_def)
  have "rx_bytes (cs_sock c1) = wire_of a @ r" "packet_size a \<le> rx_credit (cs_sock c1)"
    using c1(2) assms(6,7) by (simp_all add: advanced_def)
  from client_protocol_ok [OF this] obtain c2 where c2: "client_protocol ?ce c1 = Ok c2"
    "advanced [] [a] (shown a) c1 c2" "cs_in c2 = rest" using c1(3) by metis
  have "advanced [p] [a] (prompt @ shown a) c c2"
    using advanced_trans [OF advanced_trans [OF advanced_put c1(2)] c2(2)] by simp
  moreover have "client_loop ces n c = client_loop ces (Suc n) c2"
  proof (cases cmd)
    case (Submit l)
    have "read_word ?c = Ok (''submit'', ?c\<lparr>cs_in := l @ NL # rest\<rparr>)"
      using assms(1) Submit word by (intro read_word_typed) auto
    moreover have "getArgsSubmit ?ce (?c\<lparr>cs_in := l @ NL # rest\<rparr>) = Ok c1"
      using assms(2-4) Submit c1(1) get_line_typed [of l rest]
      by (auto simp: getArgsSubmit_def pk_def)
    ultimately show ?thesis using c2(1) by (subst client_loop.simps) simp
  next
    case (StateJob k)
    moreover have "JobState ?ce (dec k) (?c\<lparr>cs_in := rest\<rparr>) = Ok c1"
      using assms(2,3) StateJob c1(1) by (auto simp: JobState_def atoi_dec pk_def)
    ultimately show ?thesis
      using read_number [of ?c "''statejob''" k rest] assms(1,2) word c2(1)
      by (subst client_loop.simps) simp
  next
    case (StateQueue k)
    moreover have "QueueState ?ce (dec k) (?c\<lparr>cs_in := rest\<rparr>) = Ok c1"
      using assms(2,3) StateQueue c1(1) by (auto simp: QueueState_def atoi_dec pk_def)
    ultimately show ?thesis
      using read_number [of ?c "''statequeue''" k rest] assms(1,2) word c2(1)
      by (subst client_loop.simps) simp
  next
    case (Unsubmit k)
    moreover have "unsubmit_req ?ce (dec k) (?c\<lparr>cs_in := rest\<rparr>) = Ok c1"
      using assms(2,3) Unsubmit c1(1) by (auto simp: unsubmit_req_def atoi_dec pk_def)
    ultimately show ?thesis
      using read_number [of ?c "''unsubmit''" k rest] assms(1,2) word c2(1)
      by (subst client_loop.simps) simp
  qed (use assms(3) in simp)
  ultimately show ?thesis using that c2(3) by blast
qed

lemma loop_unknown:
  assumes "cs_in c = typed (Unknown w) @ rest" "typeable (Unknown w)"
  obtains c' where "client_loop ces n c = client_loop ces (Suc n) c'" "cs_in c' = rest"
    "advanced [] [] (prompt @ ''Bad command, try again '' @ [NL]) c c'"
proof -
  let ?c = "put_str prompt c"
  have "read_word ?c = Ok (w, ?c\<lparr>cs_in := rest\<rparr>)"
    using assms by (intro read_word_typed) auto
  then have "client_loop ces n c = client_loop ces (Suc n)
      (put_str (''Bad command, try again '' @ [NL]) (?c\<lparr>cs_in := rest\<rparr>))"
    using assms(2) by (subst client_loop.simps) simp
  then show ?thesis
    using that advanced_trans [OF advanced_put advanced_put, of prompt _ c]
    by (simp add: advanced_def)
qed

lemma loop_stop:
  assumes "cs_in c = ''stop'' @ [NL] @ rest" "packet_size ClientClosed \<le> tx_credit (cs_sock c)"
  obtains c' where "client_loop ces n c = Ok c'" "cs_in c' = rest" "advanced [ClientClosed] [] prompt c c'"
proof -
  let ?c = "put_str prompt c"
  have "is_word ''stop''" by (simp add: is_word_def isspace_def)
  then have "read_word ?c = Ok (''stop'', ?c\<lparr>cs_in := rest\<rparr>)"
    using assms(1) by (intro read_word_typed) auto
  moreover obtain c' where "csend (ces n) (?c\<lparr>cs_in := rest,
      cs_pkg := encode (cl_host (ces n)) ClientClosed (cs_pkg c)\<rparr>) = Ok c'"
    "advanced [ClientClosed] [] [] ?c c'" "cs_in c' = rest"
    using csend_ok [of ClientClosed "?c\<lparr>cs_in := rest\<rparr>" "ces n" "cs_pkg c"] assms(2) by auto
  moreover have "advanced [ClientClosed] [] prompt c c'"
    using advanced_trans [OF advanced_put calculation(3)] by simp
  ultimately show ?thesis using that by (simp add: client_loop.simps [of ces n c])
qed

section \<open>A whole session\<close>

lemma request_cases:
  obtains w where "cmd = Unknown w" | p where "request d cmd = [p]" "\<And>w. cmd \<noteq> Unknown w"
  by (cases cmd) auto

lemma transcript_step:
  "(\<And>w. cmd \<noteq> Unknown w) \<Longrightarrow>
   transcript (cmd # cmds) (a # as) = prompt @ shown a @ transcript cmds as"
  by (cases cmd) auto

lemma client_session_aux:
  assumes "list_all typeable cmds" "\<forall>k. cl_cwd (ces k) = Some d"
    and "cs_in c = concat (map typed cmds) @ ''stop'' @ [NL] @ rest"
    and "length as = length (concat (map (request d) cmds))"
    and "rx_bytes (cs_sock c) = concat (map wire_of as) @ r"
    and "sum_list (map packet_size (concat (map (request d) cmds) @ [ClientClosed])) \<le> tx_credit (cs_sock c)"
    and "sum_list (map packet_size as) \<le> rx_credit (cs_sock c)"
  shows "\<exists>c'. client_loop ces n c = Ok c' \<and> cs_in c' = rest \<and>
           advanced (concat (map (request d) cmds) @ [ClientClosed]) as (transcript cmds as) c c'"
  using assms
proof (induction cmds arbitrary: n c as)
  case Nil
  then show ?case using loop_stop [of c rest ces n] by auto
next
  case (Cons cmd cmds)
  show ?case
  proof (cases cmd rule: request_cases [where d = d])
    case (1 w)
    obtain c1 where c1: "client_loop ces n c = client_loop ces (Suc n) c1"
      "cs_in c1 = concat (map typed cmds) @ ''stop'' @ [NL] @ rest"
      "advanced [] [] (prompt @ ''Bad command, try again '' @ [NL]) c c1"
      using loop_unknown [of c w "concat (map typed cmds) @ ''stop'' @ [NL] @ rest" ces n]
        Cons.prems(1,3) 1 by auto
    have "\<exists>c'. client_loop ces (Suc n) c1 = Ok c' \<and> cs_in c' = rest \<and>
        advanced (concat (map (request d) cmds) @ [ClientClosed]) as (transcript cmds as) c1 c'"
      using Cons.prems c1(2,3) 1 by (intro Cons.IH) (auto simp: advanced_def)
    then show ?thesis using c1(1,3) 1 advanced_trans [OF c1(3)] by fastforce
  next
    case (2 p)
    obtain a as' where as: "as = a # as'" using Cons.prems(4) 2 by (cases as) auto
    obtain c1 where c1: "client_loop ces n c = client_loop ces (Suc n) c1"
      "cs_in c1 = concat (map typed cmds) @ ''stop'' @ [NL] @ rest"
      "advanced [p] [a] (prompt @ shown a) c c1"
      using loop_request [of c cmd "concat (map typed cmds) @ ''stop'' @ [NL] @ rest" d p ces n a
          "concat (map wire_of as') @ r"] Cons.prems 2 as by auto
    have "\<exists>c'. client_loop ces (Suc n) c1 = Ok c' \<and> cs_in c' = rest \<and>
        advanced (concat (map (request d) cmds) @ [ClientClosed]) as' (transcript cmds as') c1 c'"
      using Cons.prems c1(2,3) 2(1) as by (intro Cons.IH) (auto simp: advanced_def)
    then show ?thesis using c1(1,3) 2 as transcript_step [OF 2(2)] advanced_trans [OF c1(3)] by fastforce
  qed
qed

section \<open>Interactive jobs\<close>

text \<open>A round whose chunk fits the buffer and is written completely, and what it carries from the
  program and from the user.\<close>

fun relayed :: "relay_ev \<Rightarrow> bool" where
  "relayed (RelReady (Some (Some bs)) i w) = (bs \<noteq> [] \<and> length bs \<le> 256 \<and> w = int (length bs))"
| "relayed (RelReady None (Some (Some bs)) w) = (bs \<noteq> [] \<and> length bs \<le> 256 \<and> w = int (length bs))"
| "relayed _ = False"

fun from_prog :: "relay_ev \<Rightarrow> u8 list" where
  "from_prog (RelReady (Some (Some bs)) i w) = bs"
| "from_prog _ = []"

fun from_user :: "relay_ev \<Rightarrow> u8 list" where
  "from_user (RelReady None (Some (Some bs)) w) = bs"
| "from_user _ = []"

lemma dec_int_0: "dec_int 0 = ''0''"
  by code_simp

lemma interaction_1_relays:
  assumes "list_all relayed evs"
  shows "\<exists>c'. interaction_1 (evs @ RelReady (Some (Some [])) i w # later) c = Ok c' \<and>
           cs_out c' = cs_out c @ chars (concat (map from_prog evs)) @ ''Reading sockfd 0 '' @ [NL] \<and>
           cs_prog c' = cs_prog c @ concat (map from_user evs) \<and>
           cs_sock c' = cs_sock c \<and> cs_relay c' = cs_relay c"
  using assms
proof (induction evs arbitrary: c)
  case Nil
  show ?case by (simp add: chars_def dec_int_0 put_str_def)
next
  case (Cons ev evs)
  show ?case
  proof (cases ev rule: relayed.cases)
    case (1 bs j k)
    then show ?thesis
      using Cons.IH [of "put_str (chars bs) c"] Cons.prems by (auto simp: chars_def put_str_def Let_def)
  next
    case (2 bs k)
    then show ?thesis
      using Cons.IH [of "c\<lparr>cs_prog := cs_prog c @ bs\<rparr>"] Cons.prems by (auto simp: Let_def)
  qed (use Cons.prems in auto)
qed

section \<open>Properties\<close>

definition ex_clenv :: clenv where
  "ex_clenv = \<lparr>cl_host = LE, cl_stack = (\<lambda>_. 0xAA), cl_cwd = Some [47, 116], cl_addr = 0x0100007F,
     cl_port = 0xA00F, cl_sock = 5\<rparr>"

definition ex_cl :: "string \<Rightarrow> sock \<Rightarrow> (int \<times> relay_ev list) list \<Rightarrow> clstate" where
  "ex_cl inp sk rl = \<lparr>cs_in = inp, cs_out = [], cs_pkg = (\<lambda>_. 0x55), cs_sock = sk, cs_relay = rl, cs_prog = []\<rparr>"

lemma ex_cl_simps [simp]:
  "cs_in (ex_cl inp sk rl) = inp" "cs_out (ex_cl inp sk rl) = []" "cs_sock (ex_cl inp sk rl) = sk"
  "cs_relay (ex_cl inp sk rl) = rl" "cs_prog (ex_cl inp sk rl) = []"
  by (simp_all add: ex_cl_def)



text \<open>C20: an interactive job. After \<open>submiti\<close> the client sends the line, its directory, and the address
  and port of the socket it listens on; it shows the answer, accepts the program's connection and
  relays: the terminal receives exactly what the program wrote and the program exactly what the user
  typed, in order, until the program closes the connection, provided every write is complete.\<close>

theorem interactive_relay:
  assumes "cs_in c = ''submiti '' @ l @ [NL] @ rest" "NL \<notin> set l" "cl_cwd (ces n) = Some d"
    and "p = SubInteractive (map of_char l @ [10]) d
           (ntohl (cl_host (ces n)) (cl_addr (ces n))) (ntohs (cl_host (ces n)) (cl_port (ces n)))"
    and "packet_size p \<le> tx_credit (cs_sock c)"
    and "rx_bytes (cs_sock c) = wire_of a @ r" "packet_size a \<le> rx_credit (cs_sock c)"
    and "0 \<le> cl_sock (ces n)" "0 \<le> acc"
    and "cs_relay c = (acc, evs @ RelReady (Some (Some [])) i w # later) # rounds" "list_all relayed evs"
  shows "\<exists>c' pre post. client_loop ces n c = client_loop ces (Suc n) c' \<and> cs_in c' = rest \<and>
           cs_relay c' = rounds \<and> tx_bytes (cs_sock c') = tx_bytes (cs_sock c) @ wire_of p \<and>
           rx_bytes (cs_sock c') = r \<and>
           cs_out c' = cs_out c @ pre @ shown a @ ''Connected to exec_server... '' @ [NL] @
             chars (concat (map from_prog evs)) @ post \<and>
           cs_prog c' = cs_prog c @ concat (map from_user evs)"
proof -
  let ?ce = "ces n" and ?c = "put_str prompt c"
  define ad where "ad = ''My address: '' @ inet_ntoa (cl_host ?ce) (cl_addr ?ce) @ '' x: '' @
     dec (unat (ntohs (cl_host ?ce) (cl_port ?ce))) @ '' '' @ [NL]"
  define c0 where "c0 = put_str ad (?c\<lparr>cs_in := rest\<rparr>)"
  have "is_word ''submiti''" by (simp add: is_word_def isspace_def)
  then have rw: "read_word ?c = Ok (''submiti'', ?c\<lparr>cs_in := l @ NL # rest\<rparr>)"
    using assms(1) by (intro read_word_typed) auto
  obtain sk where sk: "sendMsg (cl_host ?ce) (cs_sock c) (encode (cl_host ?ce) p (cs_pkg c)) = Ok (1, sk)"
    "tx_bytes sk = tx_bytes (cs_sock c) @ wire_of p" "rx_bytes sk = rx_bytes (cs_sock c)"
    "rx_credit sk = rx_credit (cs_sock c)"
    using chan.send_ok [OF assms(5)] by meson
  define c1 where "c1 = c0\<lparr>cs_pkg := encode (cl_host ?ce) p (cs_pkg c), cs_sock := sk\<rparr>"
  have "getArgsSubmitInt ?ce (?c\<lparr>cs_in := l @ NL # rest\<rparr>) = Ok (cl_sock ?ce, c1)"
    using sk(1) get_line_typed [OF assms(2), of rest] assms(3,4)
    by (simp add: getArgsSubmitInt_def csend_def ad_def c1_def c0_def put_str_def)
  moreover obtain c2 where c2: "client_protocol ?ce c1 = Ok c2" "advanced [] [a] (shown a) c1 c2"
    "cs_in c2 = rest" "cs_relay c2 = cs_relay c" "cs_prog c2 = cs_prog c"
    using client_protocol_ok [of c1 a r ?ce] sk(3,4) assms(6,7)
    by (auto simp: c1_def c0_def put_str_def)
  moreover obtain c3 where c3: "client_accept (cl_sock ?ce) c2 = Ok c3"
    "cs_out c3 = cs_out c2 @ ''Connected to exec_server... '' @ [NL] @ chars (concat (map from_prog evs)) @
       ''Reading sockfd 0 '' @ [NL]"
    "cs_prog c3 = cs_prog c @ concat (map from_user evs)" "cs_sock c3 = cs_sock c2" "cs_relay c3 = rounds"
    using interaction_1_relays [OF assms(11), of i w later
        "put_str (''Connected to exec_server... '' @ [NL]) (c2\<lparr>cs_relay := rounds\<rparr>)"]
      assms(8-10) c2(4,5)
    by (auto simp: client_accept_def put_str_def)
  moreover have "cs_in c3 = rest" using client_accept_in [OF c3(1)] c2(3) by simp
  ultimately show ?thesis
    using rw c2 sk assms(6)
    by (intro exI [of _ c3] exI [of _ "prompt @ ad"] exI [of _ "''Reading sockfd 0 '' @ [NL]"])
      (simp add: client_loop.simps [of ces n c] advanced_def c1_def c0_def put_str_def)
qed

theorem interactive_relay_witness:
  "\<exists>c' pre post. client_loop (\<lambda>_. ex_clenv) 0
      (ex_cl (''submiti sh'' @ [NL] @ ''stop'' @ [NL]) (ex_sock 600 (wire_of (SubResp 4)))
        [(6, [RelReady (Some (Some [36])) None 1, RelReady None (Some (Some [108, 115, 10])) 3,
              RelReady (Some (Some [])) None 0])]) = client_loop (\<lambda>_. ex_clenv) 1 c' \<and>
    cs_in c' = ''stop'' @ [NL] \<and> cs_relay c' = [] \<and>
    tx_bytes (cs_sock c') = wire_of (SubInteractive [115, 104, 10] [47, 116] 0x7F000001 4000) \<and>
    rx_bytes (cs_sock c') = [] \<and>
    cs_out c' = pre @ shown (SubResp 4) @ ''Connected to exec_server... '' @ [NL] @ ''$'' @ post \<and>
    cs_prog c' = [108, 115, 10]"
proof -
  let ?evs = "[RelReady (Some (Some [36])) None 1, RelReady None (Some (Some [108, 115, 10])) 3]"
  let ?c = "ex_cl (''submiti sh'' @ [NL] @ ''stop'' @ [NL]) (ex_sock 600 (wire_of (SubResp 4)))
        [(6, ?evs @ [RelReady (Some (Some [])) None 0])]"
  have n: "ntohl LE 0x0100007F = 0x7F000001" "ntohs LE 0xA00F = 4000" "chars [36] = ''$''" by code_simp+
  have i: "cs_in ?c = ''submiti '' @ ''sh'' @ [NL] @ (''stop'' @ [NL])" by simp
  have w: "map of_char ''sh'' @ [10] = [115, 104, 10 :: u8]" by simp
  show ?thesis
    using interactive_relay [OF i, of "\<lambda>_. ex_clenv" 0 "[47, 116]"
        "SubInteractive [115, 104, 10] [47, 116] 0x7F000001 4000" "SubResp 4" "[]" 6 ?evs None 0 "[]" "[]"]
    by (simp add: ex_clenv_def n w layout const_defs NL_def)
qed

text \<open>A submission that is never sent. When \<open>getcwd\<close> fails, \<open>getArgsSubmit\<close> returns without
  sending anything, yet the command loop still waits for an answer; with a server that has nothing to
  say the client is stuck.\<close>

theorem lost_cwd_waits:
  assumes "cs_in c = ''submit '' @ l @ [NL] @ rest" "NL \<notin> set l" "cl_cwd (ces n) = None"
    and "rx_bytes (cs_sock c) = []" "0 < rx_credit (cs_sock c)"
  shows "getArgsSubmit (ces n) (c\<lparr>cs_in := l @ [NL] @ rest\<rparr>) = Ok (c\<lparr>cs_in := rest\<rparr>) \<and>
         client_loop ces n c = Wait"
proof -
  have w: "is_word ''submit''" by (simp add: is_word_def isspace_def)
  have rw: "read_word (put_str prompt c) = Ok (''submit'', (put_str prompt c)\<lparr>cs_in := l @ NL # rest\<rparr>)"
    using assms(1) w by (intro read_word_typed) auto
  have g: "getArgsSubmit (ces n) (k\<lparr>cs_in := l @ NL # rest\<rparr>) = Ok (k\<lparr>cs_in := rest\<rparr>)" for k :: clstate
    using get_line_typed [OF assms(2), of rest] assms(3) by (simp add: getArgsSubmit_def)
  obtain j evs where "rx_ev (cs_sock c) = IoN j # evs"
    using assms(5) by (cases "rx_ev (cs_sock c)"; cases "hd (rx_ev (cs_sock c))") (auto simp: rx_credit_def)
  then have "client_protocol (ces n) ((put_str prompt c)\<lparr>cs_in := rest\<rparr>) = Wait"
    using assms(4) by (simp add: client_protocol_def recvMsg_def layout)
  then show ?thesis using rw g g [of "put_str prompt c"] by (simp add: client_loop.simps [of ces n c])
qed

theorem lost_cwd_waits_witness:
  "client_loop (\<lambda>_. ex_clenv\<lparr>cl_cwd := None\<rparr>) 0 (ex_cl (''submit ls'' @ [NL]) (ex_sock 9 []) []) = Wait"
  using lost_cwd_waits [of "ex_cl (''submit ls'' @ [NL]) (ex_sock 9 []) []" "''ls''" "[]"
      "\<lambda>_. ex_clenv\<lparr>cl_cwd := None\<rparr>" 0]
  by (simp add: NL_def)

end
