(* ===== verification/Console.thy ===== *)
theory Console
  imports Handlers
begin

text \<open>
  The main server from the outside: \<open>main\<close> of \<open>main_server.c\<close> with its operator console, the listings
  it prints, and the two threads that accept connections.
\<close>

section \<open>Listings\<close>

text \<open>One entry of \<open>printHistoryJobs\<close> and of \<open>printQueueJobs\<close>. A command line or directory that fills
  its array has no terminator, and printing it runs out of the array.\<close>

definition history_entry :: "nat \<Rightarrow> JobHistory_t \<Rightarrow> string" where
  "history_entry i jh =
     ''idx: '' @ dec i @ [NL] @
     ''JobID: '' @ dec (unat (jh_id jh)) @ '' '' @ [NL] @
     ''Queue: '' @ dec (unat (jh_queue_idx jh)) @ '' '' @ [NL] @
     ''State: '' @ dec (unat (jh_state jh)) @ '' '' @ [NL] @
     ''Exit status: '' @ dec (unat (jh_exit_status jh)) @ '' '' @ [NL] @
     ''Submit time: '' @ dec_int (jh_submitTime jh) @ '' '' @ [NL] @
     ''Start proc. time: '' @ dec_int (jh_startProcTime jh) @ '' '' @ [NL] @
     ''End proc. time: '' @ dec_int (jh_endProcTime jh) @ '' '' @ [NL] @
     '' - - - - - '' @ [NL]"

definition rule :: string where "rule = '' -----------'' @ [NL]"

definition printHistoryJobs_text :: "server \<Rightarrow> string outcome" where
  "printHistoryJobs_text s =
     bnd (printHistoryJobs s) (\<lambda>jhs.
       Ok (rule @ '' HistoryJobs'' @ [NL] @
           concat (map (\<lambda>i. history_entry i (jhs ! i)) [0..<length jhs]) @ rule))"

definition queue_entry :: "Job_t \<Rightarrow> string outcome" where
  "queue_entry jb =
     bnd (printf_s (jb_exec_file jb)) (\<lambda>file.
     bnd (printf_s (jb_working_dir jb)) (\<lambda>dir.
       Ok (''JobID: '' @ dec (unat (jb_id jb)) @ '' '' @ [NL] @ ''File: '' @ file @
           ''Dir: '' @ dir @ [NL] @ '' - - - - - '' @ [NL])))"

fun print_jobs :: "ptr list \<Rightarrow> job_heap \<Rightarrow> string outcome" where
  "print_jobs [] h = Ok []"
| "print_jobs (p # ps) h =
     bnd (mload p h) (\<lambda>jb. bnd (queue_entry jb) (\<lambda>t. bnd (print_jobs ps h) (\<lambda>ts. Ok (t @ ts))))"

definition printQueueJobs :: "Queue_t \<Rightarrow> job_heap \<Rightarrow> string outcome" where
  "printQueueJobs q h =
     bnd (print_jobs (qlist q) h) (\<lambda>t.
       Ok (rule @ '' Jobs Queue'' @ [NL] @ ''size: '' @ dec_int (sint (put_idx q - get_idx q)) @ [NL] @
           t @ rule))"

section \<open>The operator console\<close>

text \<open>
  The other threads change the server while the operator types: \<open>sts n\<close> is the server when the
  \<open>n\<close>-th command is carried out. The result is the number of the \<open>stop\<close> command and the text
  printed. After the argument of \<open>q\<close> there is no \<open>getchar\<close>.
\<close>

function server_console :: "(nat \<Rightarrow> server) \<Rightarrow> nat \<Rightarrow> string \<Rightarrow> string \<Rightarrow> (nat \<times> string) outcome" where
  "server_console sts n inp out =
     bnd (scan_word inp) (\<lambda>(buff, inp).
       let out = out @ prompt in
       if buff = ''stop'' then Ok (n, out)
       else if buff = ''t'' then
         server_console sts (Suc n) inp
           (out @ ''Total of jobs: '' @ dec_int (sint (history_putidx (sts n))) @ '' '' @ [NL])
       else if buff = ''jobs'' then
         bnd (printHistoryJobs_text (sts n)) (\<lambda>t. server_console sts (Suc n) inp (out @ t))
       else if buff = ''q'' then
         bnd (scanf_s inp) (\<lambda>(buff, inp).
         bnd (atoi buff) (\<lambda>cmd.
           if cmd < 0 \<or> cmd \<ge> int NUM_QUEUE_MAX
           then server_console sts (Suc n) inp (out @ ''Bad command, try again '' @ [NL])
           else bnd (printQueueJobs (queue (sts n) ! nat cmd) (job_mem (sts n))) (\<lambda>t.
                  server_console sts (Suc n) inp (out @ t))))
       else server_console sts (Suc n) inp (out @ ''Bad command, try again '' @ [NL]))"
  by pat_completeness auto
termination
  by (relation "measure (\<lambda>(sts, n, inp, out). length inp)")
    (auto dest!: scan_word_shrinks scanf_s_rest(2))

declare server_console.simps [simp del]

section \<open>Start and stop\<close>

text \<open>What \<open>socket\<close> returns for the two ports, the return codes of the \<open>pthread\<close> calls, and how the
  server evolves from its initial state until each command.\<close>

record menv =
  me_sock1 :: int
  me_sock2 :: int
  me_mx :: "int \<times> int"
  me_init :: "nat \<Rightarrow> int \<times> int \<times> int"
  me_create :: "int \<times> int"
  me_destroy :: "nat \<Rightarrow> int \<times> int \<times> int"
  me_run :: "server \<Rightarrow> nat \<Rightarrow> server"

text \<open>Errors of \<open>socket\<close>, \<open>bind\<close> and \<open>listen\<close> are only reported. The argument is a null pointer when
  the command line ends before it.\<close>

definition socketCreate :: "int \<Rightarrow> string option \<Rightarrow> int outcome" where
  "socketCreate fd port =
     (case port of None \<Rightarrow> Fail NullDeref | Some argv \<Rightarrow> bnd (atoi argv) (\<lambda>portno. Ok fd))"

definition arg :: "string list \<Rightarrow> nat \<Rightarrow> string option" where
  "arg argv i = (if i < length argv then Some (argv ! i) else None)"

definition server_main ::
    "menv \<Rightarrow> string list \<Rightarrow> string \<Rightarrow> (string \<times> job_heap \<times> hist_heap) outcome" where
  "server_main me argv inp =
     (if length argv < 2 then Fail (ProcExit 1)
      else
        bnd (socketCreate (me_sock1 me) (arg argv 1)) (\<lambda>socket_client.
        bnd (socketCreate (me_sock2 me) (arg argv 2)) (\<lambda>socket_server.
        bnd (MainServerInit (fst (me_mx me)) (snd (me_mx me)) (me_init me)) (\<lambda>s.
          if fst (me_create me) \<noteq> 0 then Fail (ProcExit (-1))
          else if snd (me_create me) \<noteq> 0 then Fail (ProcExit (-1))
          else
            bnd (server_console (me_run me s) 0 inp []) (\<lambda>(n, out).
            bnd (MainServerDestroy (me_destroy me) (me_run me s n)) (\<lambda>(jm, hm). Ok (out, jm, hm)))))))"

section \<open>Accepting connections\<close>

record ThreadArg_t = ta_sockfd :: int

text \<open>The blocks allocated for thread arguments, the arguments the started threads got, and the
  connections closed again.\<close>

record acceptor =
  ac_mem :: "ThreadArg_t heap"
  ac_started :: "ptr list"
  ac_closed :: "int list"

text \<open>Each pair is what \<open>accept\<close> and the following \<open>pthread_create\<close> return.\<close>

fun accept_loop :: "(int \<times> int) list \<Rightarrow> acceptor \<Rightarrow> acceptor outcome" where
  "accept_loop [] ac = Wait"
| "accept_loop ((newsockfd, rc) # evs) ac =
     (if newsockfd < 0 then Ok ac
      else
        (let (p, h) = malloc \<lparr>ta_sockfd = newsockfd\<rparr> (ac_mem ac);
             ac = ac\<lparr>ac_mem := h\<rparr>
         in if rc \<noteq> 0 then accept_loop evs (ac\<lparr>ac_closed := ac_closed ac @ [newsockfd]\<rparr>)
            else accept_loop evs (ac\<lparr>ac_started := ac_started ac @ [p]\<rparr>)))"

definition threadNewClients :: "(int \<times> int) list \<Rightarrow> acceptor \<Rightarrow> acceptor outcome" where
  "threadNewClients evs ac = accept_loop evs ac"

definition threadNewExecServ :: "(int \<times> int) list \<Rightarrow> acceptor \<Rightarrow> acceptor outcome" where
  "threadNewExecServ evs ac = accept_loop evs ac"

section \<open>Lemmas\<close>

definition printable :: "Job_t \<Rightarrow> bool" where
  "printable jb \<longleftrightarrow> 0 \<in> set (jb_exec_file jb) \<and> 0 \<in> set (jb_working_dir jb)"

definition shown_job :: "Job_t \<Rightarrow> string" where
  "shown_job jb =
     ''JobID: '' @ dec (unat (jb_id jb)) @ '' '' @ [NL] @ ''File: '' @ chars (cstr (jb_exec_file jb)) @
     ''Dir: '' @ chars (cstr (jb_working_dir jb)) @ [NL] @ '' - - - - - '' @ [NL]"

lemma queue_entry_eq: "queue_entry jb = (if printable jb then Ok (shown_job jb) else Fail OutOfBounds)"
  by (simp add: queue_entry_def printf_s_def printable_def shown_job_def)

lemma print_jobs_eq:
  "load_all ps h = Ok jbs \<Longrightarrow>
   print_jobs ps h = (if list_all printable jbs then Ok (concat (map shown_job jbs)) else Fail OutOfBounds)"
  by (induction ps arbitrary: jbs) (auto simp: bnd_eq_Ok_iff queue_entry_eq)

lemma load_all_nth: "load_all ps h = Ok xs \<Longrightarrow> i < length ps \<Longrightarrow> mload (ps ! i) h = Ok (xs ! i)"
  by (induction ps arbitrary: xs i) (auto simp: bnd_eq_Ok_iff nth_Cons split: nat.splits)

lemma sint_small:
  assumes "unat (w :: u32) < 2 ^ 31"
  shows "sint w = int (unat w)"
proof -
  have u: "uint w = int (unat w)" by (rule uint_nat)
  have "int (unat w) < int (2 ^ 31)" by (rule iffD2 [OF of_nat_less_iff assms])
  then have "int (unat w) < 2 ^ 31" by (simp only: of_nat_power of_nat_numeral)
  then have "signed_take_bit 31 (uint w) = uint w"
    using uint_ge_0 [of w] unfolding u by (intro signed_take_bit_int_eq_self) linarith+
  then show ?thesis unfolding sint_uint u by simp
qed

lemma queue_size_text:
  assumes "queue_inv q"
  shows "dec_int (sint (put_idx q - get_idx q)) = dec (length (qlist q))"
proof -
  let ?d = "put_idx q - get_idx q"
  have d: "unat ?d = length (qlist q)" by (simp add: qlist_def)
  have "length (qlist q) \<le> MAX_JOBS_QUEUE" using length_qlist [OF assms] assms by (auto simp: queue_inv_def)
  then have "unat ?d < 2 ^ 31" using d by (simp add: MAX_JOBS_QUEUE_def)
  then have "sint ?d = int (unat ?d)" by (rule sint_small)
  then show ?thesis using d by (simp add: dec_int_def)
qed

lemma printHistoryJobs_ok:
  assumes "hist_inv s"
  obtains rs where "printHistoryJobs s = Ok rs" "length rs = filled s" "set rs = ran (lookup s)"
    "distinct (map jh_id rs)"
proof -
  let ?ps = "take (filled s) (job_array s)"
  have len: "length ?ps = filled s" using hist_inv_len [OF assms] by (simp add: filled_def JOB_HISTORY_MAX_def)
  have "live (hist_mem s) p" if "p \<in> set ?ps" for p
    using that hist_inv_live [OF assms] len by (auto simp: in_set_conv_nth)
  then obtain rs where rs: "load_all ?ps (hist_mem s) = Ok rs" using load_all_live by blast
  have at: "mload (job_array s ! i) (hist_mem s) = Ok (rs ! i)" "id_slot (jh_id (rs ! i)) = i"
    if "i < filled s" for i
  proof -
    show l: "mload (job_array s ! i) (hist_mem s) = Ok (rs ! i)"
      using load_all_nth [OF rs, of i] that len by simp
    show "id_slot (jh_id (rs ! i)) = i" using hist_inv_entry [OF assms that] l by force
  qed
  have n: "length rs = filled s" using load_all_length [OF rs] len by simp
  have "set rs = ran (lookup s)"
  proof (intro set_eqI iffI)
    fix jh assume "jh \<in> set rs"
    then obtain i where i: "i < filled s" "jh = rs ! i" using n by (auto simp: in_set_conv_nth)
    then have "lookup s (jh_id jh) = Some jh" using at [OF i(1)] lookup_at_slot [of s "jh_id jh" jh] by simp
    then show "jh \<in> ran (lookup s)" by (rule ranI)
  next
    fix jh assume "jh \<in> ran (lookup s)"
    then obtain j where j: "lookup s j = Some jh" by (auto simp: ran_def)
    then have f: "id_slot j < filled s" using lookup_filled by blast
    then have "rs ! id_slot j = jh"
      using j lookup_at_slot [OF at(1) [OF f] f] by (simp split: if_splits)
    then show "jh \<in> set rs" using f n nth_mem by metis
  qed
  moreover have "distinct (map jh_id rs)"
    unfolding distinct_conv_nth using at(2) n by (metis length_map nth_map)
  moreover have "printHistoryJobs s = Ok rs"
    using rs by (auto simp: printHistoryJobs_def Let_def filled_def min_def split: if_splits)
  ultimately show ?thesis using that n by blast
qed

text \<open>From \<open>ac\<close> to \<open>ac'\<close> the connections \<open>evs\<close> were accepted: \<open>ps\<close> are the new arguments of the started
  threads, \<open>qs\<close> the blocks nobody holds.\<close>

definition accepted ::
    "(int \<times> int) list \<Rightarrow> acceptor \<Rightarrow> acceptor \<Rightarrow> ptr list \<Rightarrow> ptr list \<Rightarrow> bool" where
  "accepted evs ac ac' ps qs \<longleftrightarrow>
     ac_started ac' = ac_started ac @ ps \<and>
     map (\<lambda>p. mload p (ac_mem ac')) ps =
       map (\<lambda>(fd, rc). Ok \<lparr>ta_sockfd = fd\<rparr>) (filter (\<lambda>(fd, rc). rc = 0) evs) \<and>
     ac_closed ac' = ac_closed ac @ map fst (filter (\<lambda>(fd, rc). rc \<noteq> 0) evs) \<and>
     length qs = length (filter (\<lambda>(fd, rc). rc \<noteq> 0) evs) \<and> distinct (ps @ qs) \<and>
     (\<forall>p. live (ac_mem ac') p \<longleftrightarrow> live (ac_mem ac) p \<or> p \<in> set (ps @ qs)) \<and>
     (\<forall>p\<in>set (ps @ qs). \<not> live (ac_mem ac) p) \<and>
     (\<forall>p. live (ac_mem ac) p \<longrightarrow> mload p (ac_mem ac') = mload p (ac_mem ac))"

lemma accepted_step:
  assumes "heap_ok (ac_mem ac)" "malloc \<lparr>ta_sockfd = fd\<rparr> (ac_mem ac) = (p, h)"
  shows "accepted evs (ac\<lparr>ac_mem := h, ac_started := ac_started ac @ [p]\<rparr>) ac' ps qs \<Longrightarrow>
           accepted ((fd, 0) # evs) ac ac' (p # ps) qs"
    and "rc \<noteq> 0 \<Longrightarrow> accepted evs (ac\<lparr>ac_mem := h, ac_closed := ac_closed ac @ [fd]\<rparr>) ac' ps qs \<Longrightarrow>
           accepted ((fd, rc) # evs) ac ac' ps (p # qs)"
  using heap.alloc_fresh [OF assms] heap.valid_alloc [OF assms(2)] heap.alloc_fetch [OF assms(2)]
  by (auto simp: accepted_def)

lemma accept_loop_accepts:
  assumes "heap_ok (ac_mem ac)" "\<forall>(fd, rc) \<in> set evs. 0 \<le> fd"
  shows "\<exists>ac' ps qs. accept_loop (evs @ (-1, r) # later) ac = Ok ac' \<and> accepted evs ac ac' ps qs"
  using assms
proof (induction evs arbitrary: ac)
  case Nil
  have "accepted [] ac ac [] []" by (simp add: accepted_def)
  then show ?case by auto
next
  case (Cons ev evs)
  obtain fd rc where ev: "ev = (fd, rc)" "0 \<le> fd" using Cons.prems(2) by (cases ev) auto
  obtain p h where m: "malloc \<lparr>ta_sockfd = fd\<rparr> (ac_mem ac) = (p, h)"
    by (cases "malloc \<lparr>ta_sockfd = fd\<rparr> (ac_mem ac)")
  note hok = heap.alloc_wf [OF Cons.prems(1) m] and step = accepted_step [OF Cons.prems(1) m]
  show ?case
  proof (cases "rc = 0")
    case True
    then show ?thesis
      using Cons.IH [of "ac\<lparr>ac_mem := h, ac_started := ac_started ac @ [p]\<rparr>"] hok Cons.prems(2) ev m step(1)
      by fastforce
  next
    case False
    then show ?thesis
      using Cons.IH [of "ac\<lparr>ac_mem := h, ac_closed := ac_closed ac @ [fd]\<rparr>"] hok Cons.prems(2) ev m step(2)
      by fastforce
  qed
qed

section \<open>Properties\<close>

text \<open>C21: the operator's listings are the abstract service. In every state the invariant allows,
  \<open>printHistoryJobs\<close> prints each job of the history exactly once, and \<open>printQueueJobs\<close> prints the
  size and the waiting jobs in the order they will be served; it leaves an array exactly when a
  queued job has a command line or directory without terminator.\<close>

theorem console_shows_service:
  assumes "server_inv held s" "represents s a"
  shows "(\<exists>rs. printHistoryJobs s = Ok rs \<and> length rs = min JOB_HISTORY_MAX (unat (sv_count a)) \<and>
            set rs = ran (sv_hist a) \<and> distinct (map jh_id rs)) \<and>
         printQueueJobs (queue s ! 0) (job_mem s) =
           (if list_all printable (sv_queue a)
            then Ok (rule @ '' Jobs Queue'' @ [NL] @ ''size: '' @ dec (length (sv_queue a)) @ [NL] @
                     concat (map shown_job (sv_queue a)) @ rule)
            else Fail OutOfBounds)"
proof
  have rep: "lookup s = sv_hist a" "load_all (qlist (q0 s)) (job_mem s) = Ok (sv_queue a)"
    "history_putidx s = sv_count a"
    using assms(2) by (simp_all add: represents_def)
  show "\<exists>rs. printHistoryJobs s = Ok rs \<and> length rs = min JOB_HISTORY_MAX (unat (sv_count a)) \<and>
      set rs = ran (sv_hist a) \<and> distinct (map jh_id rs)"
    using printHistoryJobs_ok [OF server_invD(1) [OF assms(1)]] rep(1,3) by (metis filled_def)
  show "printQueueJobs (queue s ! 0) (job_mem s) =
      (if list_all printable (sv_queue a)
       then Ok (rule @ '' Jobs Queue'' @ [NL] @ ''size: '' @ dec (length (sv_queue a)) @ [NL] @
                concat (map shown_job (sv_queue a)) @ rule)
       else Fail OutOfBounds)"
    using print_jobs_eq [OF rep(2)] queue_size_text [OF server_invD(3) [OF assms(1)]]
      load_all_length [OF rep(2)] by (simp add: printQueueJobs_def)
qed

theorem console_shows_service_witness:
  "(\<exists>rs. printHistoryJobs (ex_srv_hist 1 1) = Ok rs \<and> length rs = 1 \<and> set rs = {ex_hist 0} \<and>
      distinct (map jh_id rs)) \<and>
   printQueueJobs (queue (ex_srv_hist 1 1) ! 0) (job_mem (ex_srv_hist 1 1)) =
     Ok (rule @ '' Jobs Queue'' @ [NL] @ ''size: 1'' @ [NL] @ ''JobID: 0 '' @ [NL] @ ''File: ls'' @ [NL] @
         ''Dir: /'' @ [NL] @ '' - - - - - '' @ [NL] @ rule)"
proof -
  let ?s = "ex_srv_hist 1 1" and ?a = "\<lparr>sv_hist = [0 \<mapsto> ex_hist 0], sv_queue = [ex_job 0], sv_count = 1\<rparr>"
  have inv: "server_inv {} ?s" "lookup ?s = [0 \<mapsto> ex_hist 0]"
    using ex_srv_hist_inv [of 1 1] by (simp_all add: MAX_JOBS_QUEUE_def)
  have "represents ?s ?a"
    using inv(2) ex_srv_queue(2) [of 1 1] ex_srv_jobs(1) [of 0 1 1]
    by (simp add: represents_def ex_srv_hist_fields MAX_JOBS_QUEUE_def) (simp add: ex_srv_hist_def)
  moreover have "dec 1 = ''1''" "dec 0 = ''0''" by code_simp+
  moreover have "shown_job (ex_job 0) = ''JobID: '' @ dec 0 @ '' '' @ [NL] @ ''File: ls'' @ [NL] @ ''Dir: /'' @
      [NL] @ '' - - - - - '' @ [NL]" by code_simp
  moreover have "printable (ex_job 0)" by (simp add: printable_def ex_job_def)
  ultimately show ?thesis
    using console_shows_service [OF inv(1), of ?a] by (simp add: JOB_HISTORY_MAX_def)
qed


definition ex_menv :: menv where
  "ex_menv = \<lparr>me_sock1 = 3, me_sock2 = 4, me_mx = (0, 0), me_init = (\<lambda>_. (0, 0, 0)), me_create = (0, 0),
     me_destroy = (\<lambda>_. (0, 0, 0)), me_run = (\<lambda>s n. ex_srv_hist 3 3)\<rparr>"


text \<open>The argument check of the main server is one short. Without arguments it reports an error
  and exits with status 1, but with a single port it passes the check and reads the missing second
  port through a null pointer.\<close>

theorem server_needs_two_ports:
  assumes "length argv \<le> 2" "length argv = 2 \<longrightarrow> (\<exists>n. atoi (argv ! 1) = Ok n)"
  shows "server_main me argv inp = Fail (if length argv < 2 then ProcExit 1 else NullDeref)"
  using assms by (auto simp: server_main_def socketCreate_def arg_def)

theorem server_needs_two_ports_witness:
  "server_main ex_menv [''main_server'', ''4000''] [] = Fail NullDeref"
proof -
  have "atoi ''4000'' = Ok 4000" by code_simp
  then show ?thesis using server_needs_two_ports [of "[''main_server'', ''4000'']" ex_menv "[]"] by simp
qed

text \<open>C23: accepting connections. Until \<open>accept\<close> fails, every connection is either handed to exactly
  one thread, in order, in an argument block of its own that nobody else writes, or closed because no
  thread could be created; the argument blocks of the latter stay allocated though nothing refers to
  them.\<close>

theorem accept_one_thread_each:
  assumes "heap_ok (ac_mem ac)" "\<forall>(fd, rc) \<in> set evs. 0 \<le> fd"
  shows "\<exists>ac' ps qs. threadNewClients (evs @ (-1, r) # later) ac = Ok ac' \<and>
           threadNewExecServ (evs @ (-1, r) # later) ac = Ok ac' \<and> accepted evs ac ac' ps qs"
  using accept_loop_accepts [OF assms] by (simp add: threadNewClients_def threadNewExecServ_def)

theorem accept_one_thread_each_witness:
  "\<exists>ac' ps qs. threadNewClients [(5, 0), (6, 11), (7, 0), (-1, 0)]
       \<lparr>ac_mem = empty_heap, ac_started = [], ac_closed = []\<rparr> = Ok ac' \<and>
     ac_closed ac' = [6] \<and> length ps = 2 \<and> length qs = 1 \<and>
     (\<forall>p. live (ac_mem ac') p \<longleftrightarrow> p \<in> set (ps @ qs))"
proof -
  let ?ac = "\<lparr>ac_mem = empty_heap, ac_started = [], ac_closed = []\<rparr>" and ?evs = "[(5, 0), (6, 11), (7, 0)]"
  obtain ac' ps qs where "threadNewClients (?evs @ (-1, 0) # []) ?ac = Ok ac'" "accepted ?evs ?ac ac' ps qs"
    using accept_one_thread_each [of ?ac ?evs 0 "[]"] by auto
  then show ?thesis
    by (intro exI [of _ ac'] exI [of _ ps] exI [of _ qs]) (auto simp: accepted_def map_eq_Cons_conv)
qed

end
