(* ===== verification/Spec2Isabelle.thy ===== *)
theory Spec2Isabelle
  imports Threads ExecServer Session Console
begin

text \<open>
  A verification development for the distributed queue system. A main server keeps a queue of jobs
  and a history of the last ten; clients submit jobs, ask for their state and withdraw them;
  execution servers ask the main server for a job, run it and report how it ended. The three programs
  talk over TCP connections in messages of one packed C structure. An interactive job has its
  standard streams connected to the client that submitted it.

  \<^bold>\<open>The parts of the program and the theories that model them.\<close> All sources are under \<open>src/\<close>.

  \<^item> \<open>Prelude\<close>: outcomes of C code (\<open>Ok\<close>, \<open>Wait\<close> for a call that blocks, \<open>Fail\<close> with a fault), bytes in
    memory, words and byte order, C strings, numbers as text, and terminal input and output.
  \<^item> \<open>Proto\<close>, \<open>Packets\<close>: \<open>PROTO_DIST_QUEUE.h\<close>. The packed layout of \<open>Msg\<close>, the enumerations, and every getter
    and setter as loads and stores on memory, for hosts of both byte orders; the abstract \<open>packet\<close>
    each setter builds, and that it is read back by the getters.
  \<^item> \<open>Transport\<close>: \<open>PROTO_DIST_QUEUE.c\<close>. \<open>sendMsg\<close> and \<open>recvMsg\<close> over a socket whose calls transfer some
    bytes, are interrupted, fail or end; the interface \<open>packet_channel\<close> that the endpoints rely on.
  \<^item> \<open>Memory\<close>: the heap of job and history blocks, with null, uninitialised and dangling pointers; the
    interface \<open>block_store\<close>.
  \<^item> \<open>JobQueue\<close>: \<open>Queue_t\<close> of \<open>main_server.c\<close>, the ring of 15 slots with its 32-bit counters: \<open>QueueInit\<close>,
    \<open>putJob\<close>, the section of \<open>sendJob\<close> that takes a job, \<open>removeJob\<close>, \<open>QueueDestroy\<close>; the interface
    \<open>bounded_fifo\<close>.
  \<^item> \<open>History\<close>: \<open>MainServer_t\<close> with the table of records: \<open>findJob\<close>, the section of \<open>newJob\<close> that records a
    job, \<open>changeStateJob\<close>, \<open>printHistoryJobs\<close>; the interface \<open>job_table\<close>.
  \<^item> \<open>MainServer\<close>: the handlers of \<open>main_server.c\<close> for clients (\<open>submitNoInter\<close>, \<open>submitInter\<close>, \<open>newJob\<close>,
    \<open>jobState\<close>, \<open>queueState\<close>, \<open>unsubmit\<close>) and execution servers (\<open>checkServerStatus\<close>, \<open>sendJob\<close>,
    \<open>putJobBack\<close>), the connection loops \<open>attendClient\<close> and \<open>attendExecServ\<close>, start and end.
  \<^item> \<open>Handlers\<close>, \<open>Dispatch\<close>: the invariant of the server, the abstract \<open>service\<close> (what is known about each id,
    the waiting jobs in order, the number of jobs), and that the handlers refine its operations.
  \<^item> \<open>Threads\<close>: the same handlers as threads; one step is one critical section, and reachability is an
    inductive predicate.
  \<^item> \<open>Console\<close>: \<open>main\<close> of the main server, the operator's commands and listings, and the two accept
    threads.
  \<^item> \<open>ExecServer\<close>: \<open>exec_server.c\<close>: the command loop, the protocol with the main server, the parent and the
    child of \<open>fork\<close>, the streams and the argument vector of the program.
  \<^item> \<open>Client\<close>, \<open>Session\<close>: \<open>client.c\<close>: the command loop over the text the user types, the requests, the
    answers as printed, the relay of an interactive job; and whole sessions.
  \<^item> This theory: properties of the programs together.

  \<^bold>\<open>What the theorems show.\<close> Messages survive the trip between hosts of any byte order, however the
  transfers are cut; a message is sent or received whole or not reported as such. The queue is a
  bounded FIFO; the history is exactly the last ten jobs; search is a direct access. Each request of
  a client and each message of an execution server does to the server what the abstract service
  does, keeps every block owned exactly once, and is answered as specified; so do whole connections.
  Every interleaving of submissions, dispatches, reports and enquiries by any number of threads is
  free of faults and accounts for every job, and the backlog can always be drained. The
  execution server runs the words of the line in its streams and reports in order. The client sends
  what the user asks and shows what the server answers. Here: client and server together show
  the user the abstract service; a submitted line is the argument vector of the program; the end of the
  program is what the user reads; an interactive program is connected to its client.

  The theorems that hold of the code but should not: the check of an execution server always times
  out; a withdrawal can drop another job or write outside the history; a job that is returned to the
  queue can be read or queued after it was freed; an interrupted \<open>send\<close> repeats a byte; a size field
  from the network overruns the message; long lines lose their terminator; counters wrap.

  \<^bold>\<open>Conventions and bounds.\<close> Integers have the width of the source. What the operating system and the
  allocator do is a parameter: the events of a socket, the return codes of calls, the contents of
  uninitialised memory, the time. The loops are total functions: a connection loop consumes an event of
  its socket per message, a command loop at least one character per command, so no fuel is needed; an
  exhausted event list or an unfinished word is \<open>Wait\<close>. A credit is the number of transfers a socket
  is sure to perform; a packet needs at most as many as it has bytes, which is the bound the session
  theorems ask for. Addresses are never reused, so every access to a freed block is a fault.
  The thread theorems hold below 2 to the 32 steps, where the counters do not wrap, and the
  history theorem up to 65536 jobs, where the ids do not.

  \<^bold>\<open>Not modelled.\<close> Text written by \<open>perror\<close> and to \<open>stderr\<close>, and the progress messages of the accept
  threads and of the execution server; \<open>printType\<close>, which nothing calls; the failure of \<open>malloc\<close>; the
  locking itself (a critical section is atomic, a wait on a condition variable is a step that is not
  possible yet); the end of input on a terminal; the program that \<open>execvp\<close> starts.
\<close>

section \<open>Lemmas across components\<close>

lemma request_one: "length (request d cmd) \<le> 1"
  by (cases cmd) simp_all

lemma sv_unsubmit_answer: "\<exists>ans. snd (sv_unsubmit j a) = [ans] \<and> packet_size ans \<le> answer_max"
  using answer_sizes(4,5) by (auto simp: sv_unsubmit_def split: option.splits)

lemma client_spec_answers:
  assumes "pk \<in> set (request d cmd)"
  shows "\<exists>ans. snd (client_spec en pk a) = [ans] \<and> packet_size ans \<le> answer_max"
  using assms sv_unsubmit_answer answer_sizes
  by (cases cmd) (auto simp: sv_submit_def Let_def simp del: packet_size.simps split: option.splits)

lemma serve_all_answers:
  assumes "set pks \<subseteq> (\<Union>cmd. set (request d cmd))"
  shows "length (snd (serve_all ens n pks a)) = length pks \<and>
         sum_list (map packet_size (snd (serve_all ens n pks a))) \<le> answer_max * length pks"
  using assms
proof (induction pks arbitrary: n a)
  case (Cons pk pks)
  then obtain cmd where "pk \<in> set (request d cmd)" by auto
  then obtain ans where "snd (client_spec (ens n) pk a) = [ans]" "packet_size ans \<le> answer_max"
    using client_spec_answers by meson
  then show ?case
    using Cons.IH [of "Suc n" "fst (client_spec (ens n) pk a)"] Cons.prems
    by (auto simp: Let_def split: prod.splits)
qed simp

lemma wire_of_job_packet:
  "wire_of (job_packet e (job_of e f d 0 0 j)) = wire_of (SendJobNoInter f d j)"
  by (simp add: job_packet_def job_of_def wire_of_def setFileExecNoInter_def NUM_PATH_def)

lemma job_packet_interactive:
  assumes "ip \<noteq> 0"
  shows "job_packet e (job_of e f d ip port j) =
     SendJobInter (strncpy_bytes SZ_PATH f) (strncpy_bytes SZ_PATH d) ip port j"
proof -
  have "htonl e ip \<noteq> 0" using assms by (metis htonl_0 ntohl_htonl)
  then show ?thesis by (simp add: job_packet_def job_of_def)
qed

section \<open>Properties\<close>





text \<open>C30: the two timeouts do not fit. The execution server sleeps six seconds before it acknowledges
  a check, the main server waits five for the acknowledgement: whatever the transmission adds, the
  check of an idle, healthy execution server fails, the job goes back to the end of the queue and the
  connection is given up; no job message is sent.\<close>

theorem slow_ack_never_dispatches:
  assumes "server_inv {} s" "represents s a" "sv_queue a = job # jobs" "sv_hist a (jb_id job) \<noteq> None"
    and "0 < headroom (q0 s)" "packet_size ChExecSer \<le> tx_credit sk"
    and "sendAck xe x = Ok (True, x')" "sel_ev sk = SelReadable (xs_clock x' - xs_clock x + delay) # evs"
  shows "\<exists>s' sk'. sendJob en s sk = Ok (False, s', sk') \<and> server_inv {} s' \<and>
           represents s' (a\<lparr>sv_queue := jobs @ [job]\<rparr>) \<and>
           tx_bytes sk' = tx_bytes sk @ wire_of ChExecSer"
proof -
  have "xs_clock x' = xs_clock x + ACK_SLEEP"
    using assms(7) by (auto simp: sendAck_def xsend_def Let_def bnd_eq_Ok_iff split: if_splits)
  then have "too_late (SelReadable (xs_clock x' - xs_clock x + delay))"
    by (simp add: too_late_def const_defs)
  from sendJob_requeues [OF assms(1-6,8) this] show ?thesis .
qed

theorem slow_ack_never_dispatches_witness:
  "\<exists>s' sk' x'. sendAck \<lparr>x_host = LE, x_stack = (\<lambda>_. 0), x_fork = 42, x_wait = WExited 0\<rparr>
       \<lparr>xs_sock = ex_sock 9 [], xs_clock = 10\<rparr> = Ok (True, x') \<and> xs_clock x' = 16 \<and>
     sendJob ex_env (ex_srv_hist 1 1) ((ex_sock 5 [])\<lparr>sel_ev := [SelReadable (xs_clock x' - 10 + 0)]\<rparr>) =
       Ok (False, s', sk') \<and>
     represents s' \<lparr>sv_hist = [0 \<mapsto> ex_hist 0], sv_queue = [ex_job 0], sv_count = 1\<rparr>"
proof -
  let ?xe = "\<lparr>x_host = LE, x_stack = (\<lambda>_. 0), x_fork = 42, x_wait = WExited 0\<rparr>"
  let ?x = "\<lparr>xs_sock = ex_sock 9 [], xs_clock = 10\<rparr>"
  let ?a = "\<lparr>sv_hist = [0 \<mapsto> ex_hist 0], sv_queue = [ex_job 0], sv_count = 1\<rparr>"
  obtain x' where x': "sendAck ?xe ?x = Ok (True, x')" "xs_clock x' = 16"
    using sendAck_ok [of ?x ?xe] by (auto simp: layout ACK_SLEEP_def)
  let ?sk = "(ex_sock 5 [])\<lparr>sel_ev := [SelReadable (xs_clock x' - 10 + 0)]\<rparr>"
  have "represents (ex_srv_hist 1 1) ?a"
    using ex_srv_hist_inv(2) [of 1 1] ex_srv_queue(2) [of 1 1]
    by (simp add: represents_def MAX_JOBS_QUEUE_def ex_srv_jobs ex_srv_hist_fields)
      (simp add: ex_srv_hist_def)
  moreover have "server_inv {} (ex_srv_hist 1 1)"
    using ex_srv_hist_inv(1) [of 1 1] by (simp add: MAX_JOBS_QUEUE_def)
  moreover have "0 < headroom (q0 (ex_srv_hist 1 1))"
    using ex_srv_queue(3) [of 1 1] by (simp add: ex_srv_hist_fields MAX_JOBS_QUEUE_def)
  moreover have "packet_size ChExecSer \<le> tx_credit ?sk" "sv_hist ?a (jb_id (ex_job 0)) \<noteq> None"
    by (simp_all add: sizeof_Header_def ex_sock_def tx_credit_def ex_job_def)
  ultimately show ?thesis
    using slow_ack_never_dispatches [of "ex_srv_hist 1 1" ?a "ex_job 0" "[]" ?sk ?xe ?x x' 0 "[]" ex_env] x'
    by (auto simp: ex_sock_def)
qed

text \<open>C3: from the program's end to the user. The reports the execution server's parent process sends
  about a job, received by the main server, make it answer a state request of a client with how the
  program ended: its exit status, the signal that killed it, or that it could not be started. A
  program that exits with 40 or 41 is indistinguishable from one that could not be started.\<close>

theorem exit_status_reaches_client:
  assumes "server_inv {} s" "represents s a" "sv_hist a j \<noteq> None" "child_ended xe"
    and "rx_bytes sk = concat (map wire_of (job_reports xe j)) @ wire_of ServerClosed @ rest"
    and "2 * report_size + packet_size ServerClosed \<le> rx_credit sk" "answer_max \<le> tx_credit ck"
  shows "\<exists>s' sk' s2 ck'. attendExecServ ens n buf s sk = Ok (s', sk') \<and>
           attendClient_msg en (encode (en_host en) (JobStateReq j) buf2) s' ck = Ok (True, s2, ck') \<and>
           tx_bytes ck' = tx_bytes ck @
             wire_of (JobStateResp j (JOB_STATE_u8 (fst (ending xe))) (snd (ending xe)))"
proof -
  have sz: "sum_list (map packet_size (job_reports xe j)) \<le> 2 * report_size"
    by (simp add: job_reports_def report_size_def split: wait_ev.split)
  have nq: "JobReq \<notin> set (job_reports xe j)" "ServerClosed \<notin> set (job_reports xe j)"
    by (auto simp: job_reports_def split: wait_ev.splits)
  obtain s' sk' where s': "attendExecServ ens n buf s sk = Ok (s', sk')" "server_inv {} s'"
    "represents s' (report_all ens n (job_reports xe j) a)"
    using report_session [OF assms(1,2) nq assms(5), of ens n buf] sz assms(6) by auto
  have "\<exists>jh. sv_hist (report_all ens n (job_reports xe j) a) j = Some jh \<and>
      jh_state jh = JOB_STATE_u8 (fst (ending xe)) \<and> jh_exit_status jh = snd (ending xe)"
    using assms(3,4)
    by (cases "x_fork xe = -1"; cases "x_wait xe")
      (auto simp: job_reports_def ending_def child_ended_def sv_report_def reported_def Let_def)
  then show ?thesis
    using served_jobState [OF s'(2,3) assms(7), of en j buf2] s'(1) by (auto simp: served_def)
qed

theorem exit_status_reaches_client_witness:
  "\<exists>s' sk' s2 ck'.
     attendExecServ (\<lambda>_. ex_env) 0 (\<lambda>_. 0) (ex_srv_hist 0 0)
       (ex_sock 600 (wire_of (JobRun 0) @ wire_of (JobDone 0 3) @ wire_of ServerClosed)) = Ok (s', sk') \<and>
     attendClient_msg ex_env (encode LE (JobStateReq 0) (\<lambda>_. 0)) s' (ex_sock 9 []) = Ok (True, s2, ck') \<and>
     tx_bytes ck' = wire_of (JobStateResp 0 2 3)"
proof -
  let ?a = "\<lparr>sv_hist = [0 \<mapsto> ex_hist 0], sv_queue = [], sv_count = 1\<rparr>"
  let ?xe = "\<lparr>x_host = LE, x_stack = (\<lambda>_. 0), x_fork = 42, x_wait = WExited 3\<rparr>"
  let ?sk = "ex_sock 600 (wire_of (JobRun 0) @ wire_of (JobDone 0 3) @ wire_of ServerClosed)"
  have r: "represents (ex_srv_hist 0 0) ?a"
    using ex_srv_hist_inv(2) [of 0 0] ex_srv_queue(2) [of 0 0]
    by (simp add: represents_def ex_srv_hist_fields) (simp add: ex_srv_hist_def)
  have i: "server_inv {} (ex_srv_hist 0 0)" using ex_srv_hist_inv(1) [of 0 0] by simp
  have j: "sv_hist ?a 0 \<noteq> None" "child_ended ?xe" by (simp_all add: child_ended_def)
  have b: "rx_bytes ?sk = concat (map wire_of (job_reports ?xe 0)) @ wire_of ServerClosed @ []"
    by (simp add: job_reports_def)
  have c: "2 * report_size + packet_size ServerClosed \<le> rx_credit ?sk" "answer_max \<le> tx_credit (ex_sock 9 [])"
    by (simp_all add: report_size_def answer_max_def layout)
  have e: "JOB_STATE_u8 (fst (ending ?xe)) = 2" "snd (ending ?xe) = 3" "en_host ex_env = LE"
    by (simp_all add: ending_def ex_env_def)
  show ?thesis
    using exit_status_reaches_client [OF i r j b c, of "\<lambda>_. ex_env" 0 "\<lambda>_. 0" ex_env "\<lambda>_. 0"]
    unfolding e by simp
qed



end
